theory Spec2Isabelle
  imports Main "HOL-Library.AList" "HOL-Library.Code_Target_Nat"
begin

section \<open>Values of the store\<close>

text \<open>
  Calendars are plain data: they arrive from the API as JSON, are written to local storage as
  JSON and are read back from there. A value is therefore a JSON value, or
  \<open>undefined\<close>, which a property or an array element of a JavaScript object may also
  hold. Numbers are the integers that JavaScript holds exactly and prints in plain decimal
  (fractions, exponents, NaN and the infinities are not modelled). What reading an absent
  property gives, and what an action without a \<open>return\<close> resolves to, is also
  \<open>undefined\<close>: there it is \<open>None\<close> of \<open>json option\<close>.

  An object is the list of its own properties in insertion order, one entry per key. None of
  the keys the store reads (\<open>uuid\<close>, \<open>uid\<close>, \<open>fromApi\<close>,
  \<open>sections\<close>, \<open>id\<close>, \<open>is_public\<close>) is an array index or inherited.
\<close>

datatype json =
    JNull
  | JBool bool
  | JNum int
  | JStr string
  | JArr "json list"
  | JObj "(string \<times> json) list"
  | JUndefined

type_synonym jsval = "json option"
type_synonym obj = "(string \<times> json) list"

text \<open>\<open>c.key\<close> on an object \<open>c\<close>.\<close>

definition lookup :: "obj \<Rightarrow> string \<Rightarrow> jsval" where
  "lookup c k = map_of c k"

text \<open>Truthiness, as \<open>!x\<close> and \<open>x ? a : b\<close> read it.\<close>

fun truthy :: "jsval \<Rightarrow> bool" where
  "truthy None = False"
| "truthy (Some JNull) = False"
| "truthy (Some (JBool b)) = b"
| "truthy (Some (JNum n)) = (n \<noteq> 0)"
| "truthy (Some (JStr s)) = (s \<noteq> [])"
| "truthy (Some (JArr xs)) = True"
| "truthy (Some (JObj ps)) = True"
| "truthy (Some JUndefined) = False"

text \<open>
  \<open>a === b\<close>. On primitives (undefined, null, booleans, numbers, strings) it is equality
  of values, an absent property and a property that holds undefined both being undefined. On
  arrays and objects JavaScript compares references, which this value model does not have;
  the identifiers compared by the store are strings or undefined.
\<close>

definition read_value :: "jsval \<Rightarrow> jsval" where
  "read_value a = (if a = Some JUndefined then None else a)"

definition strict_eq :: "jsval \<Rightarrow> jsval \<Rightarrow> bool" where
  "strict_eq a b = (read_value a = read_value b)"

text \<open>
  The object literal \<open>{ k1: v1, ..., ...source }\<close>: the properties written first, then each
  own property of \<open>source\<close> in order. Assigning an existing key replaces its value and keeps
  its position; a new key goes to the end.
\<close>

definition spread :: "obj \<Rightarrow> obj \<Rightarrow> obj" where
  "spread target source = foldl (\<lambda>acc (k, v). AList.update k v acc) target source"

section \<open>Array methods\<close>

text \<open>\<open>Array.prototype.findIndex\<close>: the index of the first element satisfying the
  predicate, \<open>-1\<close> when there is none.\<close>

fun findIndex :: "('a \<Rightarrow> bool) \<Rightarrow> 'a list \<Rightarrow> int" where
  "findIndex P [] = - 1"
| "findIndex P (x # xs) =
     (if P x then 0 else (let i = findIndex P xs in if i < 0 then - 1 else i + 1))"

text \<open>
  \<open>xs.splice(start, deleteCount, item)\<close>, giving the array after the call. A negative
  \<open>start\<close> counts from the end and is clamped at 0, a large one is clamped at the length;
  the number of deleted elements is clamped to what is left after \<open>start\<close>.
\<close>

definition splice_js :: "int \<Rightarrow> int \<Rightarrow> 'a \<Rightarrow> 'a list \<Rightarrow> 'a list" where
  "splice_js start deleteCount item xs =
     (let len = int (length xs);
          actualStart = (if start < 0 then max (len + start) 0 else min start len);
          actualDeleteCount = min (max deleteCount 0) (len - actualStart)
      in take (nat actualStart) xs @ [item] @ drop (nat (actualStart + actualDeleteCount)) xs)"

section \<open>State and mutations\<close>

record state =
  localCalendars :: "obj list"
  apiCalendars :: "obj list"
  calendar :: jsval

definition setLocalCalendars_mutation :: "state \<Rightarrow> obj list \<Rightarrow> state" where
  "setLocalCalendars_mutation s calendars = s\<lparr>localCalendars := calendars\<rparr>"

definition setApiCalendars :: "state \<Rightarrow> obj list \<Rightarrow> state" where
  "setApiCalendars s calendars = s\<lparr>apiCalendars := calendars\<rparr>"

definition setCalendar :: "state \<Rightarrow> jsval \<Rightarrow> state" where
  "setCalendar s c = s\<lparr>calendar := c\<rparr>"

definition addLocalCalendar :: "state \<Rightarrow> obj \<Rightarrow> state" where
  "addLocalCalendar s c = s\<lparr>localCalendars := localCalendars s @ [c]\<rparr>"

definition removeLocalCalendar :: "state \<Rightarrow> obj \<Rightarrow> state" where
  "removeLocalCalendar s cal =
     s\<lparr>localCalendars :=
         filter (\<lambda>c. \<not> strict_eq (lookup c ''uuid'') (lookup cal ''uuid'')) (localCalendars s)\<rparr>"

definition updateLocalCalendar :: "state \<Rightarrow> obj \<Rightarrow> state" where
  "updateLocalCalendar s cal =
     (let index = findIndex (\<lambda>c. strict_eq (lookup c ''uid'') (lookup cal ''uid'')) (localCalendars s)
      in s\<lparr>localCalendars := splice_js index 1 cal (localCalendars s)\<rparr>)"

definition updateApiCalendar :: "state \<Rightarrow> obj \<Rightarrow> state" where
  "updateApiCalendar s cal =
     (let index = findIndex (\<lambda>c. strict_eq (lookup c ''uuid'') (lookup cal ''uuid'')) (apiCalendars s)
      in s\<lparr>apiCalendars := splice_js index 1 cal (apiCalendars s)\<rparr>)"

section \<open>The route table\<close>

datatype view =
    HomeView | FilesIndex | CalendarIndex | CalendarShow | CalendarEdit
  | Login | Registration | PasswordRecoveryView | NotFound

datatype guard = onlyGuests

record route =
  path :: string
  name :: string
  component :: view
  beforeEnter :: "guard list"

definition routes :: "route list" where
  "routes =
    [\<lparr>path = ''/'', name = ''home'', component = HomeView, beforeEnter = []\<rparr>,
     \<lparr>path = ''/f'', name = ''files.index'', component = FilesIndex, beforeEnter = []\<rparr>,
     \<lparr>path = ''/c'', name = ''calendars.index'', component = CalendarIndex, beforeEnter = []\<rparr>,
     \<lparr>path = ''/c/:uuid'', name = ''calendars.show'', component = CalendarShow,
      beforeEnter = []\<rparr>,
     \<lparr>path = ''/c/:uuid/edit'', name = ''calendars.edit'', component = CalendarEdit,
      beforeEnter = []\<rparr>,
     \<lparr>path = ''/login'', name = ''login'', component = Login, beforeEnter = [onlyGuests]\<rparr>,
     \<lparr>path = ''/registration'', name = ''registration'', component = Registration,
      beforeEnter = [onlyGuests]\<rparr>,
     \<lparr>path = ''/password-recovery'', name = ''password-recovery'',
      component = PasswordRecoveryView, beforeEnter = [onlyGuests]\<rparr>,
     \<lparr>path = ''/:pathMatch(.*)*'', name = ''not-found'', component = NotFound,
      beforeEnter = []\<rparr>]"

text \<open>
  Which paths a pattern matches is decided by the router library. Resolution is taken over
  any such relation \<open>m\<close> (pattern, then path): the first route of the table whose pattern
  matches.
\<close>

definition resolve :: "(string \<Rightarrow> string \<Rightarrow> bool) \<Rightarrow> route list \<Rightarrow> string \<Rightarrow> route option" where
  "resolve m rs p = find (\<lambda>r. m (path r) p) rs"

text \<open>
  A concrete matching relation for the patterns of the table: a path is cut at its slashes;
  a literal segment matches itself, a parameter \<open>:x\<close> matches one non-empty segment, and
  a parameter with the pattern \<open>(.*)\<close> repeated by \<open>*\<close> matches whatever is left.
\<close>

fun split_on :: "char \<Rightarrow> string \<Rightarrow> string list" where
  "split_on d [] = [[]]"
| "split_on d (c # cs) =
     (if c = d then [] # split_on d cs
      else (case split_on d cs of [] \<Rightarrow> [[c]] | x # xs \<Rightarrow> (c # x) # xs))"

datatype segment = Static string | Param | CatchAll

definition segment_of :: "string \<Rightarrow> segment" where
  "segment_of s =
     (case s of
        [] \<Rightarrow> Static []
      | c # r \<Rightarrow>
          if c = CHR '':'' then
            (if drop (length s - 5) s = ''(.*)*'' then CatchAll else Param)
          else Static s)"

fun match_segments :: "segment list \<Rightarrow> string list \<Rightarrow> bool" where
  "match_segments (CatchAll # ps) xs = True"
| "match_segments [] xs = (xs = [])"
| "match_segments (Static s # ps) xs =
     (case xs of [] \<Rightarrow> False | x # r \<Rightarrow> s = x \<and> match_segments ps r)"
| "match_segments (Param # ps) xs =
     (case xs of [] \<Rightarrow> False | x # r \<Rightarrow> x \<noteq> [] \<and> match_segments ps r)"

definition path_matches :: "string \<Rightarrow> string \<Rightarrow> bool" where
  "path_matches pattern p =
     match_segments (map segment_of (tl (split_on CHR ''/'' pattern))) (tl (split_on CHR ''/'' p))"

section \<open>JSON text\<close>

text \<open>
  \<open>JSON.stringify\<close>. A property that holds undefined is left out and an undefined element
  of an array is written as null: \<open>clean\<close> is the value that is written. It is written
  as the compact text, with the escapes of the standard (the backslash before a quote or a
  backslash, the short escapes for backspace, tab, line feed, form feed and carriage return,
  four hexadecimal digits in lower case for the other control characters). A character is a
  code unit below 256. The store passes an array; \<open>JSON.stringify\<close> of undefined itself
  gives no text, which is not needed here.
\<close>

fun clean :: "json \<Rightarrow> json"
  and clean_elems :: "json list \<Rightarrow> json list"
  and clean_members :: "(string \<times> json) list \<Rightarrow> (string \<times> json) list" where
  "clean (JArr xs) = JArr (clean_elems xs)"
| "clean (JObj ps) = JObj (clean_members ps)"
| "clean JUndefined = JNull"
| "clean JNull = JNull"
| "clean (JBool b) = JBool b"
| "clean (JNum i) = JNum i"
| "clean (JStr s) = JStr s"
| "clean_elems [] = []"
| "clean_elems (x # xs) = clean x # clean_elems xs"
| "clean_members [] = []"
| "clean_members (p # ps) =
     (if snd p = JUndefined then clean_members ps
      else (fst p, clean (snd p)) # clean_members ps)"

definition digit_char :: "nat \<Rightarrow> char" where
  "digit_char d = char_of (48 + d)"

fun digits :: "nat \<Rightarrow> string" where
  "digits n = (if n < 10 then [digit_char n] else digits (n div 10) @ [digit_char (n mod 10)])"

declare digits.simps [simp del]

definition to_decimal :: "int \<Rightarrow> string" where
  "to_decimal i = (if i < 0 then CHR ''-'' # digits (nat (- i)) else digits (nat i))"

definition hex_char :: "nat \<Rightarrow> char" where
  "hex_char d = (if d < 10 then char_of (48 + d) else char_of (87 + d))"

definition quote_char :: "char \<Rightarrow> string" where
  "quote_char c =
     (if c = CHR 0x08 then [CHR 0x5C, CHR ''b'']
      else if c = CHR 0x09 then [CHR 0x5C, CHR ''t'']
      else if c = CHR 0x0A then [CHR 0x5C, CHR ''n'']
      else if c = CHR 0x0C then [CHR 0x5C, CHR ''f'']
      else if c = CHR 0x0D then [CHR 0x5C, CHR ''r'']
      else if c = CHR 0x22 then [CHR 0x5C, CHR 0x22]
      else if c = CHR 0x5C then [CHR 0x5C, CHR 0x5C]
      else if (of_char c :: nat) < 32 then
        [CHR 0x5C, CHR ''u'', CHR ''0'', CHR ''0'',
         hex_char (of_char c div 16), hex_char (of_char c mod 16)]
      else [c])"

definition quote :: "string \<Rightarrow> string" where
  "quote s = CHR 0x22 # concat (map quote_char s) @ [CHR 0x22]"

fun commas :: "string list \<Rightarrow> string" where
  "commas [] = []"
| "commas [x] = x"
| "commas (x # y # ys) = x @ CHR '','' # commas (y # ys)"

fun serialize :: "json \<Rightarrow> string"
  and serialize_elems :: "json list \<Rightarrow> string list"
  and serialize_members :: "(string \<times> json) list \<Rightarrow> string list" where
  "serialize JNull = ''null''"
| "serialize (JBool b) = (if b then ''true'' else ''false'')"
| "serialize (JNum i) = to_decimal i"
| "serialize (JStr s) = quote s"
| "serialize (JArr xs) = CHR ''['' # commas (serialize_elems xs) @ '']''"
| "serialize (JObj ps) = CHR ''{'' # commas (serialize_members ps) @ ''}''"
| "serialize JUndefined = ''null''"
| "serialize_elems [] = []"
| "serialize_elems (x # xs) = serialize x # serialize_elems xs"
| "serialize_members [] = []"
| "serialize_members (p # ps) =
     (quote (fst p) @ CHR '':'' # serialize (snd p)) # serialize_members ps"

definition stringify :: "json \<Rightarrow> string" where
  "stringify v = serialize (clean v)"

text \<open>
  \<open>JSON.parse\<close>. A reading of a text is a value (\<open>Read\<close>), a SyntaxError
  (\<open>Invalid\<close>), or nothing at all (\<open>Unread\<close>) where the text leaves what this
  model holds: a number with a fraction or an exponent, an integer JavaScript does not hold
  exactly, minus zero, or an escape for a character from 256 on. White space is allowed
  where JSON allows it. The nesting is followed with a counter that starts at twice the
  length of the text plus one; a counter that ran out would give \<open>Unread\<close> too.
\<close>

datatype 'a reading = Read 'a | Invalid | Unread

definition is_ws :: "char \<Rightarrow> bool" where
  "is_ws c = (c = CHR 0x20 \<or> c = CHR 0x09 \<or> c = CHR 0x0A \<or> c = CHR 0x0D)"

definition skip_ws :: "string \<Rightarrow> string" where
  "skip_ws s = dropWhile is_ws s"

definition is_digit :: "char \<Rightarrow> bool" where
  "is_digit c = (48 \<le> (of_char c :: nat) \<and> (of_char c :: nat) \<le> 57)"

definition digit_val :: "char \<Rightarrow> nat" where
  "digit_val c = of_char c - 48"

definition hex_val :: "char \<Rightarrow> nat option" where
  "hex_val c =
     (let n = (of_char c :: nat) in
      if 48 \<le> n \<and> n \<le> 57 then Some (n - 48)
      else if 97 \<le> n \<and> n \<le> 102 then Some (n - 87)
      else if 65 \<le> n \<and> n \<le> 70 then Some (n - 55)
      else None)"

definition unescape :: "char \<Rightarrow> char option" where
  "unescape e =
     (if e = CHR 0x22 then Some (CHR 0x22)
      else if e = CHR 0x5C then Some (CHR 0x5C)
      else if e = CHR ''/'' then Some (CHR ''/'')
      else if e = CHR ''b'' then Some (CHR 0x08)
      else if e = CHR ''f'' then Some (CHR 0x0C)
      else if e = CHR ''n'' then Some (CHR 0x0A)
      else if e = CHR ''r'' then Some (CHR 0x0D)
      else if e = CHR ''t'' then Some (CHR 0x09)
      else None)"

text \<open>The code unit that four hexadecimal digits stand for.\<close>

definition unescape_u :: "char \<Rightarrow> char \<Rightarrow> char \<Rightarrow> char \<Rightarrow> nat option" where
  "unescape_u a b c d =
     (case (hex_val a, hex_val b, hex_val c, hex_val d) of
        (Some h1, Some h2, Some h3, Some h4) \<Rightarrow> Some (((h1 * 16 + h2) * 16 + h3) * 16 + h4)
      | _ \<Rightarrow> None)"

text \<open>The characters of a string up to its closing quote, and the text after the quote.\<close>

fun parse_chars :: "string \<Rightarrow> (string \<times> string) reading" where
  "parse_chars [] = Invalid"
| "parse_chars (c # cs) =
     (if c = CHR 0x22 then Read ([], cs)
      else if c = CHR 0x5C then
        (case cs of
           [] \<Rightarrow> Invalid
         | e # r \<Rightarrow>
             if e = CHR ''u'' then
               (case r of
                  a # b # x # y # r' \<Rightarrow>
                    (case unescape_u a b x y of
                       None \<Rightarrow> Invalid
                     | Some n \<Rightarrow>
                         if 256 \<le> n then Unread
                         else
                           (case parse_chars r' of
                              Read (s, rest) \<Rightarrow> Read (char_of n # s, rest)
                            | Invalid \<Rightarrow> Invalid
                            | Unread \<Rightarrow> Unread))
                | _ \<Rightarrow> Invalid)
             else
               (case unescape e of
                  None \<Rightarrow> Invalid
                | Some ch \<Rightarrow>
                    (case parse_chars r of
                       Read (s, rest) \<Rightarrow> Read (ch # s, rest)
                     | Invalid \<Rightarrow> Invalid
                     | Unread \<Rightarrow> Unread)))
      else if (of_char c :: nat) < 32 then Invalid
      else
        (case parse_chars cs of
           Read (s, rest) \<Rightarrow> Read (c # s, rest)
         | Invalid \<Rightarrow> Invalid
         | Unread \<Rightarrow> Unread))"

text \<open>The integers JavaScript holds exactly are those below \<open>2 ^ 53\<close> in size.\<close>

definition max_safe :: int where
  "max_safe = 9007199254740991"

definition parse_nat :: "string \<Rightarrow> (int \<times> string) reading" where
  "parse_nat s =
     (let ds = takeWhile is_digit s; rest = dropWhile is_digit s in
      if ds = [] \<or> (1 < length ds \<and> hd ds = CHR ''0'') then Invalid
      else if rest \<noteq> [] \<and> hd rest \<in> {CHR ''.'', CHR ''e'', CHR ''E''} then Unread
      else
        (let n = foldl (\<lambda>a c. 10 * a + int (digit_val c)) 0 ds
         in if n \<le> max_safe then Read (n, rest) else Unread))"

definition parse_number :: "string \<Rightarrow> (json \<times> string) reading" where
  "parse_number s =
     (case s of
        [] \<Rightarrow> Invalid
      | c # r \<Rightarrow>
          if c = CHR ''-'' then
            (case parse_nat r of
               Read (n, rest) \<Rightarrow> if n = 0 then Unread else Read (JNum (- n), rest)
             | Invalid \<Rightarrow> Invalid
             | Unread \<Rightarrow> Unread)
          else
            (case parse_nat s of
               Read (n, rest) \<Rightarrow> Read (JNum n, rest)
             | Invalid \<Rightarrow> Invalid
             | Unread \<Rightarrow> Unread))"

fun parse_value :: "nat \<Rightarrow> string \<Rightarrow> (json \<times> string) reading"
  and parse_elems :: "nat \<Rightarrow> string \<Rightarrow> (json list \<times> string) reading"
  and parse_members :: "nat \<Rightarrow> string \<Rightarrow> ((string \<times> json) list \<times> string) reading" where
  "parse_value 0 s = Unread"
| "parse_value (Suc n) s =
     (case skip_ws s of
        [] \<Rightarrow> Invalid
      | c # cs \<Rightarrow>
          if c = CHR ''['' then
            (case skip_ws cs of
               [] \<Rightarrow> Invalid
             | d # r \<Rightarrow>
                 if d = CHR '']'' then Read (JArr [], r)
                 else (case parse_elems n cs of
                         Read (vs, rest) \<Rightarrow> Read (JArr vs, rest)
                       | Invalid \<Rightarrow> Invalid
                       | Unread \<Rightarrow> Unread))
          else if c = CHR ''{'' then
            (case skip_ws cs of
               [] \<Rightarrow> Invalid
             | d # r \<Rightarrow>
                 if d = CHR ''}'' then Read (JObj [], r)
                 else (case parse_members n cs of
                         Read (ms, rest) \<Rightarrow> Read (JObj (spread [] ms), rest)
                       | Invalid \<Rightarrow> Invalid
                       | Unread \<Rightarrow> Unread))
          else if c = CHR 0x22 then
            (case parse_chars cs of
               Read (str, rest) \<Rightarrow> Read (JStr str, rest)
             | Invalid \<Rightarrow> Invalid
             | Unread \<Rightarrow> Unread)
          else if take 4 (c # cs) = ''null'' then Read (JNull, drop 3 cs)
          else if take 4 (c # cs) = ''true'' then Read (JBool True, drop 3 cs)
          else if take 5 (c # cs) = ''false'' then Read (JBool False, drop 4 cs)
          else parse_number (c # cs))"
| "parse_elems 0 s = Unread"
| "parse_elems (Suc n) s =
     (case parse_value n s of
        Read (v, r) \<Rightarrow>
          (case skip_ws r of
             [] \<Rightarrow> Invalid
           | d # r' \<Rightarrow>
               if d = CHR '','' then
                 (case parse_elems n r' of
                    Read (vs, rest) \<Rightarrow> Read (v # vs, rest)
                  | Invalid \<Rightarrow> Invalid
                  | Unread \<Rightarrow> Unread)
               else if d = CHR '']'' then Read ([v], r')
               else Invalid)
      | Invalid \<Rightarrow> Invalid
      | Unread \<Rightarrow> Unread)"
| "parse_members 0 s = Unread"
| "parse_members (Suc n) s =
     (case skip_ws s of
        [] \<Rightarrow> Invalid
      | q # s1 \<Rightarrow>
          if q \<noteq> CHR 0x22 then Invalid
          else
            (case parse_chars s1 of
               Read (k, s2) \<Rightarrow>
                 (case skip_ws s2 of
                    [] \<Rightarrow> Invalid
                  | colon # s3 \<Rightarrow>
                      if colon \<noteq> CHR '':'' then Invalid
                      else
                        (case parse_value n s3 of
                           Read (v, r) \<Rightarrow>
                             (case skip_ws r of
                                [] \<Rightarrow> Invalid
                              | d # r' \<Rightarrow>
                                  if d = CHR '','' then
                                    (case parse_members n r' of
                                       Read (ms, rest) \<Rightarrow> Read ((k, v) # ms, rest)
                                     | Invalid \<Rightarrow> Invalid
                                     | Unread \<Rightarrow> Unread)
                                  else if d = CHR ''}'' then Read ([(k, v)], r')
                                  else Invalid)
                         | Invalid \<Rightarrow> Invalid
                         | Unread \<Rightarrow> Unread))
             | Invalid \<Rightarrow> Invalid
             | Unread \<Rightarrow> Unread))"

definition parse :: "string \<Rightarrow> json reading" where
  "parse s =
     (case parse_value (2 * length s + 1) s of
        Read (v, rest) \<Rightarrow> if skip_ws rest = [] then Read v else Invalid
      | Invalid \<Rightarrow> Invalid
      | Unread \<Rightarrow> Unread)"

text \<open>
  A value of the program has one entry per key in every object, and its numbers are integers
  JavaScript holds exactly: \<open>wf_json\<close>. It is JSON data when, besides, nothing in it is
  undefined: \<open>defined_json\<close>.
\<close>

fun wf_json :: "json \<Rightarrow> bool"
  and wf_elems :: "json list \<Rightarrow> bool"
  and wf_members :: "(string \<times> json) list \<Rightarrow> bool" where
  "wf_json (JArr xs) = wf_elems xs"
| "wf_json (JObj ps) = (distinct (map fst ps) \<and> wf_members ps)"
| "wf_json (JNum i) = (\<bar>i\<bar> \<le> max_safe)"
| "wf_json v = True"
| "wf_elems [] = True"
| "wf_elems (x # xs) = (wf_json x \<and> wf_elems xs)"
| "wf_members [] = True"
| "wf_members (p # ps) = (wf_json (snd p) \<and> wf_members ps)"

fun defined_json :: "json \<Rightarrow> bool"
  and defined_elems :: "json list \<Rightarrow> bool"
  and defined_members :: "(string \<times> json) list \<Rightarrow> bool" where
  "defined_json (JArr xs) = defined_elems xs"
| "defined_json (JObj ps) = defined_members ps"
| "defined_json JUndefined = False"
| "defined_json v = True"
| "defined_elems [] = True"
| "defined_elems (x # xs) = (defined_json x \<and> defined_elems xs)"
| "defined_members [] = True"
| "defined_members (p # ps) = (defined_json (snd p) \<and> defined_members ps)"

text \<open>What may follow a value inside a text written by \<open>serialize\<close>: nothing, a comma, or a
  closing bracket or brace.\<close>

definition value_end :: "string \<Rightarrow> bool" where
  "value_end rest =
     (case rest of [] \<Rightarrow> True | c # r \<Rightarrow> c = CHR '','' \<or> c = CHR '']'' \<or> c = CHR ''}'')"

section \<open>The world around the store\<close>

text \<open>
  What an action reads and writes besides the state: the token and base URL of the root
  state, local storage, the uuid generator, the network and the console. The generator is a
  stream of strings and a count of those drawn. The network answers the requests in the
  order of \<open>replies\<close>; with no answer left a request fails. Every request sent is recorded.
  Local storage is a map from keys to texts; writing to it does not fail.
\<close>

datatype http_method = GET | POST | PUT | PATCH | DELETE

record request =
  req_method :: http_method
  req_url :: string
  req_data :: jsval
  req_authorization :: string

datatype response = Data json | Failure string

datatype error = Reason string | TypeError | SyntaxError | AxiosError string

datatype outcome = Resolved jsval | Rejected error

record world =
  store :: state
  token :: "string option"
  apiUrl :: string
  localStorage :: "string \<rightharpoonup> string"
  uuid_stream :: "nat \<Rightarrow> string"
  uuid_drawn :: nat
  replies :: "response list"
  requests :: "request list"
  console :: "error list"

definition uuidv4 :: "world \<Rightarrow> string \<times> world" where
  "uuidv4 w = (uuid_stream w (uuid_drawn w), w\<lparr>uuid_drawn := Suc (uuid_drawn w)\<rparr>)"

definition axios :: "request \<Rightarrow> world \<Rightarrow> response \<times> world" where
  "axios r w =
     (case replies w of
        [] \<Rightarrow> (Failure ''Network Error'', w\<lparr>requests := requests w @ [r]\<rparr>)
      | x # xs \<Rightarrow> (x, w\<lparr>replies := xs, requests := requests w @ [r]\<rparr>))"

definition commit :: "(state \<Rightarrow> 'a \<Rightarrow> state) \<Rightarrow> 'a \<Rightarrow> world \<Rightarrow> world" where
  "commit mutation payload w = w\<lparr>store := mutation (store w) payload\<rparr>"

definition console_error :: "error \<Rightarrow> world \<Rightarrow> world" where
  "console_error e w = w\<lparr>console := console w @ [e]\<rparr>"

text \<open>\<open>!token\<close>: the token is null (\<open>None\<close>) or the empty string.\<close>

definition no_token :: "string option \<Rightarrow> bool" where
  "no_token t = (t = None \<or> t = Some [])"

text \<open>A value inside a template literal or joined to a string with \<open>+\<close>.\<close>

fun to_string :: "json \<Rightarrow> string"
  and join_elems :: "json list \<Rightarrow> string list" where
  "to_string JNull = ''null''"
| "to_string (JBool b) = (if b then ''true'' else ''false'')"
| "to_string (JNum i) = to_decimal i"
| "to_string (JStr s) = s"
| "to_string (JArr xs) = commas (join_elems xs)"
| "to_string (JObj ps) = ''[object Object]''"
| "to_string JUndefined = ''undefined''"
| "join_elems [] = []"
| "join_elems (x # xs) =
     (if x = JNull \<or> x = JUndefined then [] else to_string x) # join_elems xs"

definition template :: "jsval \<Rightarrow> string" where
  "template v = (case v of None \<Rightarrow> ''undefined'' | Some x \<Rightarrow> to_string x)"

definition bearer :: "string option \<Rightarrow> string" where
  "bearer t = ''Bearer '' @ (case t of None \<Rightarrow> ''null'' | Some x \<Rightarrow> x)"

text \<open>The own properties \<open>{ ...value }\<close> copies.\<close>

definition own_props :: "json \<Rightarrow> obj" where
  "own_props v =
     (case v of
        JObj ps \<Rightarrow> ps
      | JArr xs \<Rightarrow> zip (map digits [0 ..< length xs]) xs
      | JStr s \<Rightarrow> zip (map digits [0 ..< length s]) (map (\<lambda>c. JStr [c]) s)
      | _ \<Rightarrow> [])"

section \<open>Actions\<close>

text \<open>
  An action takes the world and gives the outcome of its promise and the world after it.
  A \<open>dispatch\<close> that is not awaited runs the dispatched action up to its first
  \<open>await\<close>; the actions dispatched that way here have none, so they run to their end
  before the caller continues, and their outcome is dropped.
\<close>

definition saveLocalCalendars :: "world \<Rightarrow> outcome \<times> world" where
  "saveLocalCalendars w =
     (Resolved None,
      w\<lparr>localStorage :=
          (localStorage w)(''calendars'' \<mapsto> stringify (JArr (map JObj (localCalendars (store w)))))\<rparr>)"

text \<open>
  \<open>getItem\<close> gives null for an absent key, which \<open>JSON.parse\<close> reads as the text
  \<open>null\<close>. The parsed value, or the empty list in place of null, is committed as the
  local list whatever it is, and the action resolves. The state here holds a list of objects:
  where the stored text is not read by \<open>parse\<close>, or the value parsed is not a list of
  objects, the model does not follow the code and gives \<open>None\<close>.
\<close>

fun as_calendars :: "json list \<Rightarrow> obj list option" where
  "as_calendars [] = Some []"
| "as_calendars (JObj ps # xs) = map_option ((#) ps) (as_calendars xs)"
| "as_calendars (x # xs) = None"

definition getLocalCalendars :: "world \<Rightarrow> (outcome \<times> world) option" where
  "getLocalCalendars w =
     (case parse (case localStorage w ''calendars'' of None \<Rightarrow> ''null'' | Some t \<Rightarrow> t) of
        Invalid \<Rightarrow> Some (Rejected SyntaxError, w)
      | Unread \<Rightarrow> None
      | Read v \<Rightarrow>
          (case (case v of JNull \<Rightarrow> Some [] | JArr xs \<Rightarrow> as_calendars xs | _ \<Rightarrow> None) of
             None \<Rightarrow> None
           | Some calendars \<Rightarrow>
               Some (Resolved None, commit setLocalCalendars_mutation calendars w)))"

text \<open>The local list after \<open>saveLocalCalendars\<close> followed by \<open>getLocalCalendars\<close>.\<close>

definition stored_then_read :: "world \<Rightarrow> obj list option" where
  "stored_then_read w =
     map_option (\<lambda>r. localCalendars (store (snd r)))
       (getLocalCalendars (snd (saveLocalCalendars w)))"

definition setLocalCalendars :: "world \<Rightarrow> obj list \<Rightarrow> outcome \<times> world" where
  "setLocalCalendars w calendars =
     (Resolved None, snd (saveLocalCalendars (commit setLocalCalendars_mutation calendars w)))"

text \<open>The \<open>map\<close> of \<open>addUuidToCalendars\<close>, drawing a uuid for each calendar whose
  \<open>uuid\<close> is falsy.\<close>

fun map_add_uuid :: "obj list \<Rightarrow> world \<Rightarrow> obj list \<times> world" where
  "map_add_uuid [] w = ([], w)"
| "map_add_uuid (c # cs) w =
     (if truthy (lookup c ''uuid'') then
        (case map_add_uuid cs w of (cs', w') \<Rightarrow> (c # cs', w'))
      else
        (case uuidv4 w of
           (u, w1) \<Rightarrow>
             (case map_add_uuid cs w1 of
                (cs', w') \<Rightarrow> (spread [(''uuid'', JStr u)] c # cs', w'))))"

definition addUuidToCalendars :: "world \<Rightarrow> outcome \<times> world" where
  "addUuidToCalendars w =
     (case map_add_uuid (localCalendars (store w)) w of
        (calendars, w1) \<Rightarrow> (Resolved None, snd (setLocalCalendars w1 calendars)))"


definition deleteCalendar :: "world \<Rightarrow> obj \<Rightarrow> outcome \<times> world" where
  "deleteCalendar w cal =
     (let w1 = snd (saveLocalCalendars (commit removeLocalCalendar cal w));
          r = \<lparr>req_method = DELETE,
               req_url = apiUrl w1 @ ''/calendars/'' @ template (lookup cal ''uuid''),
               req_data = None,
               req_authorization = bearer (token w1)\<rparr>
      in (case axios r w1 of
            (Data d, w2) \<Rightarrow> (Resolved None, w2)
          | (Failure e, w2) \<Rightarrow> (Resolved None, w2)))"

definition createCalendar :: "world \<Rightarrow> obj \<Rightarrow> outcome \<times> world" where
  "createCalendar w cal =
     (if no_token (token w) then
        (case uuidv4 w of
           (u, w1) \<Rightarrow>
             (Resolved (Some (JObj cal)),
              snd (saveLocalCalendars
                     (commit addLocalCalendar (spread [(''uuid'', JStr u)] cal) w1))))
      else
        (case axios \<lparr>req_method = POST,
                     req_url = apiUrl w @ ''/calendars'',
                     req_data = Some (JObj cal),
                     req_authorization = bearer (token w)\<rparr> w of
           (Data d, w1) \<Rightarrow> (Resolved (Some d), w1)
         | (Failure e, w1) \<Rightarrow> (Resolved None, console_error (AxiosError e) w1)))"

text \<open>
  \<open>calendar.sections.map((s) => s.id)\<close>: a TypeError (\<open>None\<close>) when \<open>sections\<close>
  is not an array or one of its elements is null or undefined. An absent \<open>id\<close> is
  undefined in the array of ids.
\<close>

fun section_id :: "json \<Rightarrow> json option" where
  "section_id JNull = None"
| "section_id JUndefined = None"
| "section_id (JObj ps) = Some (case lookup ps ''id'' of None \<Rightarrow> JUndefined | Some v \<Rightarrow> v)"
| "section_id v = Some JUndefined"

fun section_ids :: "json list \<Rightarrow> json list option" where
  "section_ids [] = Some []"
| "section_ids (x # xs) =
     (case section_id x of
        None \<Rightarrow> None
      | Some i \<Rightarrow> map_option ((#) i) (section_ids xs))"

definition sectionsId :: "obj \<Rightarrow> json list option" where
  "sectionsId cal =
     (case lookup cal ''sections'' of
        Some (JArr xs) \<Rightarrow> section_ids xs
      | _ \<Rightarrow> None)"

definition updateCalendar :: "world \<Rightarrow> obj \<Rightarrow> outcome \<times> world" where
  "updateCalendar w cal =
     (if \<not> truthy (lookup cal ''fromApi'') then
        (Resolved None, snd (saveLocalCalendars (commit updateLocalCalendar cal w)))
      else
        (case axios \<lparr>req_method = PUT,
                     req_url = apiUrl w @ ''/calendars/'' @ template (lookup cal ''uuid''),
                     req_data = Some (JObj cal),
                     req_authorization = bearer (token w)\<rparr> w of
           (Failure e, w1) \<Rightarrow> (Resolved None, console_error (AxiosError e) w1)
         | (Data d, w1) \<Rightarrow>
             (case sectionsId cal of
                None \<Rightarrow> (Resolved None, console_error TypeError w1)
              | Some ids \<Rightarrow>
                  (case axios \<lparr>req_method = POST,
                               req_url = apiUrl w1 @ ''/calendars/''
                                           @ template (lookup cal ''uuid'') @ ''/sections'',
                               req_data = Some (JObj [(''sections'', JArr ids)]),
                               req_authorization = bearer (token w1)\<rparr> w1 of
                     (Failure e, w2) \<Rightarrow> (Resolved None, console_error (AxiosError e) w2)
                   | (Data d2, w2) \<Rightarrow> (Resolved (Some d), w2)))))"

definition togglePrivacy :: "world \<Rightarrow> jsval \<Rightarrow> outcome \<times> world" where
  "togglePrivacy w uuid =
     (case find (\<lambda>c. strict_eq (lookup c ''uuid'') uuid) (apiCalendars (store w)) of
        None \<Rightarrow> (Rejected (Reason ''Calendar not found''), w)
      | Some cal \<Rightarrow>
          (case axios \<lparr>req_method = PATCH,
                       req_url = apiUrl w @ ''/calendars/'' @ template uuid,
                       req_data = Some (JObj [(''is_public'',
                                               JBool (\<not> truthy (lookup cal ''is_public'')))]),
                       req_authorization = bearer (token w)\<rparr> w of
             (Failure e, w1) \<Rightarrow> (Rejected (AxiosError e), w1)
           | (Data d, w1) \<Rightarrow>
               (let apiCalendar = AList.update ''fromApi'' (JBool True) (spread [] (own_props d))
                in (Resolved (Some (JObj apiCalendar)),
                    commit setCalendar (Some (JObj apiCalendar))
                      (commit updateApiCalendar apiCalendar w1)))))"

text \<open>Whether the promise of an action rejects.\<close>

definition is_rejected :: "outcome \<Rightarrow> bool" where
  "is_rejected r = (case r of Rejected e \<Rightarrow> True | Resolved v \<Rightarrow> False)"

text \<open>A world to run the actions in: the initial state of the module, nobody signed in,
  empty storage, a network that answers nothing.\<close>

definition world0 :: world where
  "world0 =
     \<lparr>store = \<lparr>localCalendars = [], apiCalendars = [], calendar = Some JNull\<rparr>,
      token = None,
      apiUrl = ''https://api.test'',
      localStorage = Map.empty,
      uuid_stream = (\<lambda>n. ''uuid-'' @ digits n),
      uuid_drawn = 0,
      replies = [],
      requests = [],
      console = []\<rparr>"

text \<open>The same world with a user signed in and a server that answers the next request
  with an error.\<close>

definition signed_in_offline :: world where
  "signed_in_offline =
     world0\<lparr>token := Some ''t'', replies := [Failure ''Request failed with status code 500'']\<rparr>"

text \<open>A world whose local list comes from an earlier version: one calendar without uuid,
  one with a uuid, one whose uuid is the empty string.\<close>

definition legacy_world :: world where
  "legacy_world =
     world0\<lparr>store := \<lparr>localCalendars =
                         [[(''name'', JStr ''A'')],
                          [(''uuid'', JStr ''kept''), (''name'', JStr ''B'')],
                          [(''name'', JStr ''C''), (''uuid'', JStr [])]],
                       apiCalendars = [], calendar = Some JNull\<rparr>\<rparr>"

text \<open>
  The calendars \<open>addUuidToCalendars\<close> leaves as they are: the \<open>uuid\<close> is truthy, or it is
  the first key of an object with one entry per key.
\<close>

definition settled :: "obj \<Rightarrow> bool" where
  "settled c = (truthy (lookup c ''uuid'')
     \<or> (case c of [] \<Rightarrow> False | p # r \<Rightarrow> fst p = ''uuid'' \<and> distinct (map fst c)))"

text \<open>A world with a calendar of every kind of JSON value in its local list, and an empty
  calendar.\<close>

definition stored_world :: world where
  "stored_world =
     world0\<lparr>store := \<lparr>localCalendars =
        [[(''uuid'', JStr ''a-1''),
          (''name'', JStr [CHR ''A'', CHR 0x22, CHR 0x0A]),
          (''sections'', JArr [JObj [(''id'', JNum 12), (''code'', JStr ''X'')],
                               JObj [(''id'', JNum (- 3))]]),
          (''is_public'', JBool False),
          (''owner'', JNull)],
         []],
       apiCalendars = [], calendar = Some JNull\<rparr>\<rparr>"

text \<open>A world whose one calendar has a property that holds undefined.\<close>

definition undefined_world :: world where
  "undefined_world =
     world0\<lparr>store := \<lparr>localCalendars = [[(''uuid'', JStr ''a''), (''end'', JUndefined)]],
                       apiCalendars = [], calendar = Some JNull\<rparr>\<rparr>"


section \<open>Properties of the array methods and mutations\<close>

lemma findIndex_none: "(\<And>x. x \<in> set xs \<Longrightarrow> \<not> P x) \<Longrightarrow> findIndex P xs = - 1"
  by (induction xs) (simp_all add: Let_def)

lemma splice_last: "splice_js (- 1) 1 c xs = (if xs = [] then [c] else butlast xs @ [c])"
proof (cases xs rule: rev_cases)
  case Nil
  then show ?thesis by (simp add: splice_js_def)
next
  case (snoc ys y)
  then show ?thesis by (simp add: splice_js_def Let_def)
qed

text \<open>
  Claim C10. When no element of the local list has a \<open>uid\<close> equal to that of the calendar
  passed in, \<open>findIndex\<close> gives \<open>-1\<close> and \<open>splice(-1, 1, calendar)\<close> changes the list all the
  same: a non-empty list has its last element replaced by the calendar, an empty list
  receives it. The comparison reads the field \<open>uid\<close>, not \<open>uuid\<close>: with two calendars of
  different \<open>uuid\<close> and no \<open>uid\<close>, updating the second overwrites the first.
\<close>

theorem updateLocalCalendar_absent:
  assumes "\<forall>e \<in> set (localCalendars s). \<not> strict_eq (lookup e ''uid'') (lookup c ''uid'')"
  shows "localCalendars (updateLocalCalendar s c) =
           (if localCalendars s = [] then [c] else butlast (localCalendars s) @ [c])
         \<and> localCalendars (updateLocalCalendar s c) \<noteq> localCalendars s
         \<and> localCalendars (updateLocalCalendar
               \<lparr>localCalendars = [[(''uuid'', JStr ''a'')], [(''uuid'', JStr ''b'')]],
                apiCalendars = [], calendar = None\<rparr>
               [(''uuid'', JStr ''b''), (''name'', JStr ''new'')])
           = [[(''uuid'', JStr ''b''), (''name'', JStr ''new'')], [(''uuid'', JStr ''b'')]]"
proof -
  let ?L = "localCalendars s"
  have idx: "findIndex (\<lambda>e. strict_eq (lookup e ''uid'') (lookup c ''uid'')) ?L = - 1"
    using assms by (intro findIndex_none) simp
  have upd: "localCalendars (updateLocalCalendar s c) = (if ?L = [] then [c] else butlast ?L @ [c])"
    by (simp add: updateLocalCalendar_def idx splice_last)
  have "c \<notin> set ?L"
    using assms by (auto simp: strict_eq_def read_value_def)
  then have neq: "(if ?L = [] then [c] else butlast ?L @ [c]) \<noteq> ?L"
    by (cases ?L rule: rev_cases) auto
  have ex: "localCalendars (updateLocalCalendar
               \<lparr>localCalendars = [[(''uuid'', JStr ''a'')], [(''uuid'', JStr ''b'')]],
                apiCalendars = [], calendar = None\<rparr>
               [(''uuid'', JStr ''b''), (''name'', JStr ''new'')])
           = [[(''uuid'', JStr ''b''), (''name'', JStr ''new'')], [(''uuid'', JStr ''b'')]]"
    by (simp add: updateLocalCalendar_def splice_js_def strict_eq_def read_value_def lookup_def Let_def)
  from upd neq ex show ?thesis by simp
qed

theorem updateLocalCalendar_absent_witness:
  "localCalendars (updateLocalCalendar
       \<lparr>localCalendars = [[(''uid'', JStr ''1''), (''name'', JStr ''A'')],
                          [(''uid'', JStr ''2''), (''name'', JStr ''B'')]],
        apiCalendars = [], calendar = None\<rparr>
       [(''uid'', JStr ''3''), (''name'', JStr ''C'')])
     = [[(''uid'', JStr ''1''), (''name'', JStr ''A'')],
        [(''uid'', JStr ''3''), (''name'', JStr ''C'')]]"
  using updateLocalCalendar_absent
    [of "\<lparr>localCalendars = [[(''uid'', JStr ''1''), (''name'', JStr ''A'')],
                            [(''uid'', JStr ''2''), (''name'', JStr ''B'')]],
          apiCalendars = [], calendar = None\<rparr>"
        "[(''uid'', JStr ''3''), (''name'', JStr ''C'')]"]
  by (simp add: strict_eq_def read_value_def lookup_def)

section \<open>Properties of object literals\<close>

lemma update_fresh: "k \<notin> fst ` set al \<Longrightarrow> AList.update k v al = al @ [(k, v)]"
  by (induction al) auto

lemma spread_distinct_append:
  "distinct (map fst (t @ s)) \<Longrightarrow> spread t s = t @ s"
proof (induction s arbitrary: t)
  case Nil
  then show ?case by (simp add: spread_def)
next
  case (Cons p s)
  obtain k v where p: "p = (k, v)" by (cases p)
  from Cons.prems p have fresh: "k \<notin> fst ` set t" by auto
  from Cons.prems p have "distinct (map fst ((t @ [(k, v)]) @ s))" by auto
  from Cons.IH [OF this] have "spread (t @ [(k, v)]) s = (t @ [(k, v)]) @ s" .
  with fresh p show ?case by (simp add: spread_def update_fresh)
qed

lemma map_of_spread:
  "distinct (map fst s) \<Longrightarrow> map_of (spread t s) = map_of t ++ map_of s"
proof (induction s arbitrary: t)
  case Nil
  then show ?case by (simp add: spread_def)
next
  case (Cons p s)
  obtain k v where p: "p = (k, v)" by (cases p)
  from Cons.prems have d: "distinct (map fst s)" by simp
  from Cons.prems p have nk: "k \<notin> fst ` set s" by auto
  have "map_of (spread t (p # s)) = map_of (spread (AList.update k v t) s)"
    by (simp add: spread_def p)
  also have "\<dots> = map_of (AList.update k v t) ++ map_of s"
    by (rule Cons.IH [OF d])
  also have "\<dots> = (map_of t)(k \<mapsto> v) ++ map_of s"
    by (simp add: update_conv')
  also have "\<dots> = map_of t ++ map_of (p # s)"
    using nk by (simp add: p map_add_upd_left dom_map_of_conv_image_fst)
  finally show ?case .
qed

lemma lookup_spread_uuid:
  assumes "distinct (map fst c)"
  shows "lookup (spread [(''uuid'', JStr u)] c) k =
           (if k = ''uuid'' \<and> lookup c ''uuid'' = None then Some (JStr u) else lookup c k)"
  using assms by (auto simp: lookup_def map_of_spread map_add_def split: option.splits)

lemma spread_head:
  "spread ((k, v) # t) s \<noteq> [] \<and> fst (hd (spread ((k, v) # t) s)) = k"
proof (induction s arbitrary: v t)
  case Nil
  then show ?case by (simp add: spread_def)
next
  case (Cons p s)
  obtain k' v' where p: "p = (k', v')" by (cases p)
  show ?case
  proof (cases "k = k'")
    case True
    with p have "spread ((k, v) # t) (p # s) = spread ((k, v') # t) s"
      by (simp add: spread_def)
    with Cons.IH show ?thesis by simp
  next
    case False
    with p have "spread ((k, v) # t) (p # s) = spread ((k, v) # AList.update k' v' t) s"
      by (simp add: spread_def)
    with Cons.IH show ?thesis by simp
  qed
qed

lemma spread_distinct: "distinct (map fst t) \<Longrightarrow> distinct (map fst (spread t s))"
proof (induction s arbitrary: t)
  case Nil
  then show ?case by (simp add: spread_def)
next
  case (Cons p s)
  obtain k v where p: "p = (k, v)" by (cases p)
  from Cons.prems have "distinct (map fst (AList.update k v t))"
    by (simp add: distinct_update)
  from Cons.IH [OF this] p show ?case by (simp add: spread_def)
qed

lemma settled_spread: "settled (spread [(''uuid'', JStr u)] c)"
proof -
  have d: "distinct (map fst (spread [(''uuid'', JStr u)] c))"
    by (rule spread_distinct) simp
  from spread_head [of "''uuid''" "JStr u" "[]" c] d show ?thesis
    by (cases "spread [(''uuid'', JStr u)] c") (auto simp: settled_def)
qed

lemma settled_fixed:
  assumes "settled c" and "\<not> truthy (lookup c ''uuid'')"
  shows "spread [(''uuid'', JStr u)] c = c"
proof -
  from assms obtain v r where c: "c = (''uuid'', v) # r" and d: "distinct (map fst c)"
    by (cases c) (auto simp: settled_def)
  have "spread [(''uuid'', JStr u)] c = spread [(''uuid'', v)] r"
    by (simp add: c spread_def)
  also have "\<dots> = [(''uuid'', v)] @ r"
    using d c by (intro spread_distinct_append) simp
  finally show ?thesis by (simp add: c)
qed

section \<open>Properties of the JSON text\<close>

subsection \<open>Numbers\<close>

lemma digit_char_props:
  "d < 10 \<Longrightarrow> is_digit (digit_char d) \<and> digit_val (digit_char d) = d"
  by (simp add: digit_char_def is_digit_def digit_val_def)

lemma digit_char_zero: "d < 10 \<Longrightarrow> digit_char d = CHR ''0'' \<longleftrightarrow> d = 0"
proof -
  assume d: "d < 10"
  have "digit_char d = CHR ''0'' \<longleftrightarrow> (of_char (digit_char d) :: nat) = of_char (CHR ''0'')"
    by (simp only: of_char_eq_iff)
  also have "\<dots> \<longleftrightarrow> d = 0"
    using d by (simp add: digit_char_def)
  finally show ?thesis .
qed

lemma digits_ne: "digits n \<noteq> []"
  by (subst digits.simps) simp

lemma digits_all: "\<forall>c \<in> set (digits n). is_digit c"
proof (induction n rule: digits.induct)
  case (1 n)
  show ?case
  proof (cases "n < 10")
    case True
    then show ?thesis by (subst digits.simps) (simp add: digit_char_props)
  next
    case False
    with "1" show ?thesis by (subst digits.simps) (simp add: digit_char_props)
  qed
qed

lemma digits_value: "foldl (\<lambda>a c. 10 * a + int (digit_val c)) 0 (digits n) = int n"
proof (induction n rule: digits.induct)
  case (1 n)
  show ?case
  proof (cases "n < 10")
    case True
    then show ?thesis by (subst digits.simps) (simp add: digit_char_props)
  next
    case False
    have "10 * int (n div 10) + int (n mod 10) = int n"
      by (simp add: zdiv_int zmod_int)
    with "1" False show ?thesis by (subst digits.simps) (simp add: digit_char_props)
  qed
qed

lemma digits_hd: "0 < n \<Longrightarrow> hd (digits n) \<noteq> CHR ''0''"
proof (induction n rule: digits.induct)
  case (1 n)
  show ?case
  proof (cases "n < 10")
    case True
    with "1.prems" show ?thesis by (subst digits.simps) (simp add: digit_char_zero)
  next
    case False
    then have "0 < n div 10" by simp
    with "1.IH" False have "hd (digits (n div 10)) \<noteq> CHR ''0''" by simp
    with False show ?thesis by (subst digits.simps) (simp add: digits_ne)
  qed
qed

lemma digits_single: "1 < length (digits n) \<Longrightarrow> 0 < n"
  by (cases "n = 0") (auto simp: digits.simps [of 0])

lemma skip_ws_Cons: "\<not> is_ws c \<Longrightarrow> skip_ws (c # s) = c # s"
  by (simp add: skip_ws_def)

lemma skip_ws_Nil [simp]: "skip_ws [] = []"
  by (simp add: skip_ws_def)

lemma value_end_props:
  assumes "value_end rest"
  shows "takeWhile is_digit rest = []" and "dropWhile is_digit rest = rest"
    and "rest = [] \<or> hd rest \<notin> {CHR ''.'', CHR ''e'', CHR ''E''}"
    and "skip_ws rest = rest"
  using assms
  by (auto simp: value_end_def is_digit_def skip_ws_def is_ws_def split: list.splits)

lemma parse_nat_digits:
  assumes "value_end rest" and "int n \<le> max_safe"
  shows "parse_nat (digits n @ rest) = Read (int n, rest)"
proof -
  have tw: "takeWhile is_digit (digits n @ rest) = digits n"
    using digits_all [of n] value_end_props(1) [OF assms(1)] by (simp add: takeWhile_append)
  have dw: "dropWhile is_digit (digits n @ rest) = rest"
    using digits_all [of n] value_end_props(2) [OF assms(1)] by (simp add: dropWhile_append)
  have lead: "\<not> (1 < length (digits n) \<and> hd (digits n) = CHR ''0'')"
    using digits_single [of n] digits_hd [of n] by blast
  from value_end_props(3) [OF assms(1)] lead assms(2) show ?thesis
    by (auto simp add: parse_nat_def tw dw Let_def digits_ne digits_value)
qed

lemma is_digit_hd_digits: "is_digit (hd (digits n))"
  using digits_all [of n] digits_ne [of n] by (cases "digits n") auto

lemma parse_number_decimal:
  assumes "value_end rest" and "\<bar>i\<bar> \<le> max_safe"
  shows "parse_number (to_decimal i @ rest) = Read (JNum i, rest)"
proof (cases "i < 0")
  case True
  with assms(2) have "int (nat (- i)) \<le> max_safe" by simp
  from parse_nat_digits [OF assms(1) this] True show ?thesis
    by (simp add: parse_number_def to_decimal_def)
next
  case False
  with assms(2) have safe: "int (nat i) \<le> max_safe" by simp
  obtain c r where cr: "digits (nat i) = c # r"
    using digits_ne [of "nat i"] by (cases "digits (nat i)") auto
  with is_digit_hd_digits [of "nat i"] have "c \<noteq> CHR ''-''"
    by (auto simp: is_digit_def)
  moreover have "parse_nat (c # r @ rest) = Read (int (nat i), rest)"
    using parse_nat_digits [OF assms(1) safe] cr by simp
  ultimately show ?thesis
    using False cr by (simp add: parse_number_def to_decimal_def)
qed



subsection \<open>Strings\<close>

lemma hex_val_hex_char: "d < 16 \<Longrightarrow> hex_val (hex_char d) = Some d"
  by (auto simp: hex_val_def hex_char_def Let_def)

lemma unescape_u_control:
  assumes "(of_char c :: nat) < 32"
  shows "unescape_u (CHR ''0'') (CHR ''0'') (hex_char (of_char c div 16))
           (hex_char (of_char c mod 16)) = Some (of_char c)"
proof -
  let ?n = "of_char c :: nat"
  have z: "hex_val (CHR ''0'') = Some 0" by (simp add: hex_val_def)
  have a: "hex_val (hex_char (?n div 16)) = Some (?n div 16)"
    using assms by (intro hex_val_hex_char) simp
  have b: "hex_val (hex_char (?n mod 16)) = Some (?n mod 16)"
    by (intro hex_val_hex_char) simp
  show ?thesis
    unfolding unescape_u_def z a b by simp
qed

lemma parse_chars_quote_char:
  assumes "parse_chars s = Read (str, rest)"
  shows "parse_chars (quote_char c @ s) = Read (c # str, rest)"
proof -
  consider (short) "c \<in> {CHR 0x08, CHR 0x09, CHR 0x0A, CHR 0x0C, CHR 0x0D, CHR 0x22, CHR 0x5C}"
    | (control) "c \<notin> {CHR 0x08, CHR 0x09, CHR 0x0A, CHR 0x0C, CHR 0x0D, CHR 0x22, CHR 0x5C}"
        "(of_char c :: nat) < 32"
    | (plain) "c \<notin> {CHR 0x08, CHR 0x09, CHR 0x0A, CHR 0x0C, CHR 0x0D, CHR 0x22, CHR 0x5C}"
        "\<not> (of_char c :: nat) < 32"
    by blast
  then show ?thesis
  proof cases
    case short
    then show ?thesis using assms by (auto simp: quote_char_def unescape_def)
  next
    case control
    then show ?thesis using assms by (simp add: quote_char_def unescape_u_control)
  next
    case plain
    then show ?thesis using assms by (simp add: quote_char_def)
  qed
qed

lemma parse_chars_quoted:
  "parse_chars (concat (map quote_char s) @ CHR 0x22 # rest) = Read (s, rest)"
  by (induction s) (simp_all add: parse_chars_quote_char)



subsection \<open>Values\<close>

lemma commas_Cons: "commas (a # as) = (if as = [] then a else a @ CHR '','' # commas as)"
  by (cases as) simp_all

lemma serialize_elems_Nil [simp]: "serialize_elems xs = [] \<longleftrightarrow> xs = []"
  by (cases xs) simp_all

lemma serialize_members_Nil [simp]: "serialize_members ps = [] \<longleftrightarrow> ps = []"
  by (cases ps) simp_all

lemma to_decimal_hd: "\<exists>c r. to_decimal i = c # r \<and> (c = CHR ''-'' \<or> is_digit c)"
proof (cases "i < 0")
  case True
  then show ?thesis by (simp add: to_decimal_def)
next
  case False
  obtain c r where "digits (nat i) = c # r"
    using digits_ne [of "nat i"] by (cases "digits (nat i)") auto
  with is_digit_hd_digits [of "nat i"] False show ?thesis
    by (simp add: to_decimal_def)
qed

lemma number_start:
  assumes "c = CHR ''-'' \<or> is_digit c"
  shows "\<not> is_ws c" "c \<noteq> CHR ''[''" "c \<noteq> CHR '']''" "c \<noteq> CHR ''{''" "c \<noteq> CHR 0x22"
    "c \<noteq> CHR ''n''" "c \<noteq> CHR ''t''" "c \<noteq> CHR ''f''"
  using assms by (auto simp: is_digit_def is_ws_def)

lemma serialize_hd: "\<exists>c r. serialize v = c # r \<and> c \<noteq> CHR '']'' \<and> \<not> is_ws c"
proof (cases v)
  case (JNum i)
  from to_decimal_hd [of i] obtain c r where "to_decimal i = c # r" "c = CHR ''-'' \<or> is_digit c"
    by blast
  with JNum number_start(1,3) [of c] show ?thesis by simp
qed (simp_all add: quote_def is_ws_def)

lemma commas_elems_hd:
  "xs \<noteq> [] \<Longrightarrow> \<exists>c r. commas (serialize_elems xs) = c # r \<and> c \<noteq> CHR '']'' \<and> \<not> is_ws c"
proof (cases xs)
  case Nil
  then show "xs \<noteq> [] \<Longrightarrow> ?thesis" by simp
next
  case (Cons x xs')
  from serialize_hd [of x] obtain c r where "serialize x = c # r" "c \<noteq> CHR '']''" "\<not> is_ws c"
    by blast
  with Cons show ?thesis by (simp add: commas_Cons)
qed

lemma commas_members_hd:
  "ps \<noteq> [] \<Longrightarrow> \<exists>r. commas (serialize_members ps) = CHR 0x22 # r"
  by (cases ps) (simp_all add: commas_Cons quote_def)

lemma ws_chars [simp]:
  "\<not> is_ws (CHR ''['')" "\<not> is_ws (CHR '']'')" "\<not> is_ws (CHR ''{'')" "\<not> is_ws (CHR ''}'')"
  "\<not> is_ws (CHR '','')" "\<not> is_ws (CHR '':'')" "\<not> is_ws (CHR 0x22)"
  "\<not> is_ws (CHR ''n'')" "\<not> is_ws (CHR ''t'')" "\<not> is_ws (CHR ''f'')"
  by (simp_all add: is_ws_def)

lemma parse_value_array:
  "d \<noteq> CHR '']'' \<Longrightarrow> \<not> is_ws d \<Longrightarrow> parse_value (Suc m) (CHR ''['' # d # r) =
     (case parse_elems m (d # r) of
        Read (vs, rest) \<Rightarrow> Read (JArr vs, rest) | Invalid \<Rightarrow> Invalid | Unread \<Rightarrow> Unread)"
  by (simp add: skip_ws_Cons)

lemma parse_value_object:
  "parse_value (Suc m) (CHR ''{'' # CHR 0x22 # r) =
     (case parse_members m (CHR 0x22 # r) of
        Read (ms, rest) \<Rightarrow> Read (JObj (spread [] ms), rest)
      | Invalid \<Rightarrow> Invalid | Unread \<Rightarrow> Unread)"
  by (simp add: skip_ws_Cons)

lemma parse_value_string:
  "parse_value (Suc m) (CHR 0x22 # cs) =
     (case parse_chars cs of
        Read (str, rest) \<Rightarrow> Read (JStr str, rest) | Invalid \<Rightarrow> Invalid | Unread \<Rightarrow> Unread)"
  by (simp add: skip_ws_Cons)

lemma parse_value_number:
  assumes "c = CHR ''-'' \<or> is_digit c"
  shows "parse_value (Suc m) (c # r) = parse_number (c # r)"
  using number_start [OF assms] by (simp add: skip_ws_Cons)

lemma parse_elems_step:
  "parse_value m s = Read (v, d # r) \<Longrightarrow> \<not> is_ws d \<Longrightarrow>
     parse_elems (Suc m) s =
       (if d = CHR '','' then
          (case parse_elems m r of
             Read (vs, rest) \<Rightarrow> Read (v # vs, rest) | Invalid \<Rightarrow> Invalid | Unread \<Rightarrow> Unread)
        else if d = CHR '']'' then Read ([v], r) else Invalid)"
  by (simp add: skip_ws_Cons)

lemma parse_members_step:
  "parse_value m s = Read (v, d # r) \<Longrightarrow> \<not> is_ws d \<Longrightarrow>
     parse_members (Suc m) (quote k @ CHR '':'' # s) =
       (if d = CHR '','' then
          (case parse_members m r of
             Read (ms, rest) \<Rightarrow> Read ((k, v) # ms, rest)
           | Invalid \<Rightarrow> Invalid | Unread \<Rightarrow> Unread)
        else if d = CHR ''}'' then Read ([(k, v)], r) else Invalid)"
  by (simp add: quote_def parse_chars_quoted skip_ws_Cons)

lemma round_trip_value:
  "wf_json v \<and> defined_json v \<longrightarrow>
     (\<forall>n rest. value_end rest \<longrightarrow> 2 * length (serialize v) < n \<longrightarrow>
        parse_value n (serialize v @ rest) = Read (v, rest))"
  and round_trip_elems:
  "wf_elems xs \<and> defined_elems xs \<longrightarrow> xs \<noteq> [] \<longrightarrow>
     (\<forall>n rest. 2 * length (commas (serialize_elems xs)) + 1 < n \<longrightarrow>
        parse_elems n (commas (serialize_elems xs) @ CHR '']'' # rest) = Read (xs, rest))"
  and round_trip_members:
  "wf_members ps \<and> defined_members ps \<longrightarrow> ps \<noteq> [] \<longrightarrow>
     (\<forall>n rest. 2 * length (commas (serialize_members ps)) + 1 < n \<longrightarrow>
        parse_members n (commas (serialize_members ps) @ CHR ''}'' # rest) = Read (ps, rest))"
proof (induction v and xs and ps rule: serialize_serialize_elems_serialize_members.induct)
  case 1
  show ?case
  proof (intro impI allI)
    fix n :: nat and rest
    assume "2 * length (serialize JNull) < n"
    then obtain m where "n = Suc m" by (cases n) auto
    then show "parse_value n (serialize JNull @ rest) = Read (JNull, rest)"
      by (simp add: skip_ws_Cons)
  qed
next
  case (2 b)
  show ?case
  proof (intro impI allI)
    fix n :: nat and rest
    assume "2 * length (serialize (JBool b)) < n"
    then obtain m where "n = Suc m" by (cases n) auto
    then show "parse_value n (serialize (JBool b) @ rest) = Read (JBool b, rest)"
      by (simp add: skip_ws_Cons)
  qed
next
  case (3 i)
  show ?case
  proof (intro impI allI)
    fix n :: nat and rest
    assume wf: "wf_json (JNum i) \<and> defined_json (JNum i)"
      and e: "value_end rest" and "2 * length (serialize (JNum i)) < n"
    then obtain m where n: "n = Suc m" by (cases n) auto
    from wf have safe: "\<bar>i\<bar> \<le> max_safe" by simp
    from to_decimal_hd [of i] obtain c r where
      cr: "to_decimal i = c # r" and c: "c = CHR ''-'' \<or> is_digit c" by blast
    have "parse_value n (serialize (JNum i) @ rest) = parse_number (to_decimal i @ rest)"
      using parse_value_number [OF c, of m "r @ rest"] by (simp add: n cr)
    with parse_number_decimal [OF e safe]
    show "parse_value n (serialize (JNum i) @ rest) = Read (JNum i, rest)" by simp
  qed
next
  case (4 s)
  show ?case
  proof (intro impI allI)
    fix n :: nat and rest
    assume "2 * length (serialize (JStr s)) < n"
    then obtain m where n: "n = Suc m" by (cases n) auto
    show "parse_value n (serialize (JStr s) @ rest) = Read (JStr s, rest)"
      unfolding n by (simp only: serialize.simps quote_def append_Cons append_assoc
          parse_value_string parse_chars_quoted) simp
  qed
next
  case (5 xs)
  show ?case
  proof (intro impI allI)
    fix n :: nat and rest
    assume wf: "wf_json (JArr xs) \<and> defined_json (JArr xs)"
      and fuel: "2 * length (serialize (JArr xs)) < n"
    then obtain m where n: "n = Suc m" by (cases n) auto
    show "parse_value n (serialize (JArr xs) @ rest) = Read (JArr xs, rest)"
    proof (cases "xs = []")
      case True
      then show ?thesis by (simp add: n skip_ws_Cons)
    next
      case False
      from commas_elems_hd [OF False] obtain d r where
        dr: "commas (serialize_elems xs) = d # r" and d: "d \<noteq> CHR '']''" "\<not> is_ws d"
        by blast
      from fuel n have "2 * length (commas (serialize_elems xs)) + 1 < m" by simp
      with "5.IH" wf False
      have "parse_elems m (commas (serialize_elems xs) @ CHR '']'' # rest) = Read (xs, rest)"
        by simp
      then have "parse_elems m (d # r @ CHR '']'' # rest) = Read (xs, rest)"
        by (simp add: dr)
      with parse_value_array [OF d, of m "r @ CHR '']'' # rest"] show ?thesis
        by (simp add: n dr)
    qed
  qed
next
  case (6 ps)
  show ?case
  proof (intro impI allI)
    fix n :: nat and rest
    assume wf: "wf_json (JObj ps) \<and> defined_json (JObj ps)"
      and fuel: "2 * length (serialize (JObj ps)) < n"
    then obtain m where n: "n = Suc m" by (cases n) auto
    show "parse_value n (serialize (JObj ps) @ rest) = Read (JObj ps, rest)"
    proof (cases "ps = []")
      case True
      then show ?thesis by (simp add: n skip_ws_Cons)
    next
      case False
      from commas_members_hd [OF False] obtain r where
        dr: "commas (serialize_members ps) = CHR 0x22 # r" by blast
      from fuel n have "2 * length (commas (serialize_members ps)) + 1 < m" by simp
      with "6.IH" wf False
      have "parse_members m (commas (serialize_members ps) @ CHR ''}'' # rest) = Read (ps, rest)"
        by simp
      then have pm: "parse_members m (CHR 0x22 # r @ CHR ''}'' # rest) = Read (ps, rest)"
        by (simp add: dr)
      from wf have "spread [] ps = ps"
        using spread_distinct_append [of "[]" ps] by simp
      with pm parse_value_object [of m "r @ CHR ''}'' # rest"] show ?thesis
        by (simp add: n dr)
    qed
  qed
next
  case 7
  show ?case by simp
next
  case 8
  show ?case by simp
next
  case (9 x xs)
  show ?case
  proof (intro impI allI)
    fix n :: nat and rest
    assume wf: "wf_elems (x # xs) \<and> defined_elems (x # xs)"
      and fuel: "2 * length (commas (serialize_elems (x # xs))) + 1 < n"
    then obtain m where n: "n = Suc m" by (cases n) auto
    show "parse_elems n (commas (serialize_elems (x # xs)) @ CHR '']'' # rest) = Read (x # xs, rest)"
    proof (cases "xs = []")
      case True
      from fuel n True have f: "2 * length (serialize x) < m" by simp
      have "parse_value m (serialize x @ CHR '']'' # rest) = Read (x, CHR '']'' # rest)"
        using "9.IH"(1) wf f by (simp add: value_end_def)
      from parse_elems_step [OF this] True show ?thesis by (simp add: n)
    next
      case False
      let ?tail = "commas (serialize_elems xs) @ CHR '']'' # rest"
      from fuel n False have f: "2 * length (serialize x) < m"
        and g: "2 * length (commas (serialize_elems xs)) + 1 < m"
        by (simp_all add: commas_Cons)
      have "parse_value m (serialize x @ CHR '','' # ?tail) = Read (x, CHR '','' # ?tail)"
        using "9.IH"(1) wf f by (simp add: value_end_def)
      from parse_elems_step [OF this]
      have "parse_elems (Suc m) (serialize x @ CHR '','' # ?tail) =
          (case parse_elems m ?tail of
             Read (vs, rest) \<Rightarrow> Read (x # vs, rest) | Invalid \<Rightarrow> Invalid | Unread \<Rightarrow> Unread)"
        by simp
      moreover have "parse_elems m ?tail = Read (xs, rest)"
        using "9.IH"(2) wf False g by simp
      ultimately show ?thesis using False by (simp add: n commas_Cons)
    qed
  qed
next
  case 10
  show ?case by simp
next
  case (11 p ps)
  show ?case
  proof (intro impI allI)
    fix n :: nat and rest
    assume wf: "wf_members (p # ps) \<and> defined_members (p # ps)"
      and fuel: "2 * length (commas (serialize_members (p # ps))) + 1 < n"
    then obtain m where n: "n = Suc m" by (cases n) auto
    obtain k v where p: "p = (k, v)" by (cases p)
    show "parse_members n (commas (serialize_members (p # ps)) @ CHR ''}'' # rest)
        = Read (p # ps, rest)"
    proof (cases "ps = []")
      case True
      from fuel n True p have f: "2 * length (serialize v) < m" by simp
      have "parse_value m (serialize v @ CHR ''}'' # rest) = Read (v, CHR ''}'' # rest)"
        using "11.IH"(1) wf f p by (simp add: value_end_def)
      from parse_members_step [OF this, of k] True p show ?thesis by (simp add: n)
    next
      case False
      let ?tail = "commas (serialize_members ps) @ CHR ''}'' # rest"
      from fuel n False p have f: "2 * length (serialize v) < m"
        and g: "2 * length (commas (serialize_members ps)) + 1 < m"
        by (simp_all add: commas_Cons)
      have "parse_value m (serialize v @ CHR '','' # ?tail) = Read (v, CHR '','' # ?tail)"
        using "11.IH"(1) wf f p by (simp add: value_end_def)
      from parse_members_step [OF this, of k]
      have "parse_members (Suc m) (quote k @ CHR '':'' # serialize v @ CHR '','' # ?tail) =
          (case parse_members m ?tail of
             Read (ms, rest) \<Rightarrow> Read ((k, v) # ms, rest)
           | Invalid \<Rightarrow> Invalid | Unread \<Rightarrow> Unread)"
        by simp
      moreover have "parse_members m ?tail = Read (ps, rest)"
        using "11.IH"(2) wf False g by simp
      ultimately show ?thesis using False p by (simp add: n commas_Cons)
    qed
  qed
qed

lemma parse_serialize:
  assumes "wf_json v" and "defined_json v"
  shows "parse (serialize v) = Read v"
proof -
  from assms round_trip_value [of v]
  have "value_end [] \<longrightarrow> 2 * length (serialize v) < Suc (2 * length (serialize v)) \<longrightarrow>
      parse_value (Suc (2 * length (serialize v))) (serialize v @ []) = Read (v, [])"
    by blast
  then have "parse_value (Suc (2 * length (serialize v))) (serialize v) = Read (v, [])"
    by (simp add: value_end_def del: parse_value.simps)
  then show ?thesis by (simp add: parse_def del: parse_value.simps)
qed

subsection \<open>What is written and read back\<close>

lemma clean_members_keys:
  "map fst (clean_members ps) = map fst (filter (\<lambda>p. snd p \<noteq> JUndefined) ps)"
  by (induction ps) simp_all

lemma clean_data:
  "wf_json v \<longrightarrow> wf_json (clean v) \<and> defined_json (clean v)"
  "wf_elems xs \<longrightarrow> wf_elems (clean_elems xs) \<and> defined_elems (clean_elems xs)"
  "wf_members ps \<longrightarrow> wf_members (clean_members ps) \<and> defined_members (clean_members ps)"
proof (induction v and xs and ps rule: clean_clean_elems_clean_members.induct)
  case (2 ps)
  have "distinct (map fst ps) \<Longrightarrow> distinct (map fst (clean_members ps))"
    by (simp add: clean_members_keys distinct_map_filter)
  with 2 show ?case by simp
qed simp_all

lemma clean_defined:
  "defined_json v \<longrightarrow> clean v = v"
  "defined_elems xs \<longrightarrow> clean_elems xs = xs"
  "defined_members ps \<longrightarrow> clean_members ps = ps"
  by (induction v and xs and ps rule: clean_clean_elems_clean_members.induct) auto

lemma parse_stringify:
  assumes "wf_json v"
  shows "parse (stringify v) = Read (clean v)"
  unfolding stringify_def using clean_data(1) [of v] assms by (simp add: parse_serialize)

lemma as_calendars_objects: "as_calendars (map (JObj \<circ> f) L) = Some (map f L)"
  by (induction L) simp_all

lemma wf_elems_objects: "wf_elems (map JObj L) \<longleftrightarrow> (\<forall>c \<in> set L. wf_json (JObj c))"
  by (induction L) auto

lemma clean_elems_objects: "clean_elems (map JObj L) = map JObj (map clean_members L)"
  by (induction L) simp_all

lemma clean_members_defined: "defined_json (JObj c) \<Longrightarrow> clean_members c = c"
  using clean_defined(3) [of c] by simp

section \<open>Properties of the route table\<close>

lemma catch_all_matches: "path_matches ''/:pathMatch(.*)*'' p"
  by (simp add: path_matches_def segment_of_def)

lemma find_last:
  "rs \<noteq> [] \<Longrightarrow> P (last rs) \<Longrightarrow> \<forall>r \<in> set (butlast rs). \<not> P r \<Longrightarrow> find P rs = Some (last rs)"
  by (induction rs) auto

text \<open>
  Claim C9. The routes that carry the \<open>onlyGuests\<close> guard are exactly those of the paths
  \<open>/login\<close>, \<open>/registration\<close> and \<open>/password-recovery\<close>. The last route of the table is
  the wildcard, named \<open>not-found\<close>, with the not-found view. Whenever the wildcard pattern
  matches every path, a path that none of the routes declared before it matches resolves to
  that last route.
\<close>

theorem routes_guards_and_fallback:
  "map path (filter (\<lambda>r. onlyGuests \<in> set (beforeEnter r)) routes)
     = [''/login'', ''/registration'', ''/password-recovery'']
   \<and> path (last routes) = ''/:pathMatch(.*)*''
   \<and> name (last routes) = ''not-found''
   \<and> component (last routes) = NotFound
   \<and> ((\<forall>q. m (path (last routes)) q) \<longrightarrow> (\<forall>r \<in> set (butlast routes). \<not> m (path r) p)
        \<longrightarrow> resolve m routes p = Some (last routes))"
proof -
  have guards: "map path (filter (\<lambda>r. onlyGuests \<in> set (beforeEnter r)) routes)
     = [''/login'', ''/registration'', ''/password-recovery'']"
    by (simp add: routes_def)
  have lst: "path (last routes) = ''/:pathMatch(.*)*'' \<and> name (last routes) = ''not-found''
      \<and> component (last routes) = NotFound"
    by (simp add: routes_def)
  have ne: "routes \<noteq> []" by (simp add: routes_def)
  have "resolve m routes p = Some (last routes)"
    if "\<forall>q. m (path (last routes)) q" and "\<forall>r \<in> set (butlast routes). \<not> m (path r) p"
    unfolding resolve_def using that by (intro find_last ne) auto
  with guards lst show ?thesis by blast
qed

theorem routes_guards_and_fallback_witness:
  "resolve path_matches routes ''/nowhere/else'' = Some (last routes)
   \<and> component (last routes) = NotFound"
proof -
  have a: "\<forall>q. path_matches (path (last routes)) q"
    using catch_all_matches by (simp add: routes_def)
  have b: "\<forall>r \<in> set (butlast routes). \<not> path_matches (path r) ''/nowhere/else''"
    by (simp add: routes_def path_matches_def segment_of_def)
  from a b routes_guards_and_fallback [of path_matches "''/nowhere/else''"]
  show ?thesis by blast
qed

section \<open>Properties of the actions\<close>

lemmas action_defs = commit_def saveLocalCalendars_def console_error_def uuidv4_def axios_def

lemma uuid0: "fst (uuidv4 world0) = ''uuid-0''"
  by code_simp

lemma no_token0: "no_token (token world0)"
  by code_simp

lemma localCalendars0: "localCalendars (store world0) = []"
  by (simp add: world0_def)

lemma find_none: "(\<forall>x \<in> set xs. \<not> P x) \<Longrightarrow> find P xs = None"
  by (simp add: find_None_iff)

subsection \<open>createCalendar\<close>

text \<open>
  Claim C1, as the code has it. With a token present and the POST failing, the error is
  written to the console and goes no further: the promise resolves with undefined. One
  request has been sent; state and local storage are as before.
\<close>

theorem createCalendar_api_failure:
  assumes "\<not> no_token (token w)"
    and "fst (axios \<lparr>req_method = POST, req_url = apiUrl w @ ''/calendars'',
                      req_data = Some (JObj cal), req_authorization = bearer (token w)\<rparr> w)
           = Failure e"
  shows "fst (createCalendar w cal) = Resolved None
    \<and> \<not> is_rejected (fst (createCalendar w cal))
    \<and> console (snd (createCalendar w cal)) = console w @ [AxiosError e]
    \<and> requests (snd (createCalendar w cal))
        = requests w @ [\<lparr>req_method = POST, req_url = apiUrl w @ ''/calendars'',
                          req_data = Some (JObj cal), req_authorization = bearer (token w)\<rparr>]
    \<and> store (snd (createCalendar w cal)) = store w
    \<and> localStorage (snd (createCalendar w cal)) = localStorage w"
  using assms
  by (auto simp: createCalendar_def action_defs is_rejected_def split: list.splits response.splits)

theorem createCalendar_api_failure_witness:
  "fst (createCalendar signed_in_offline [(''name'', JStr ''A'')]) = Resolved None
   \<and> console (snd (createCalendar signed_in_offline [(''name'', JStr ''A'')]))
       = [AxiosError ''Request failed with status code 500'']
   \<and> store (snd (createCalendar signed_in_offline [(''name'', JStr ''A'')]))
       = store signed_in_offline"
proof -
  have a: "\<not> no_token (token signed_in_offline)"
    by (simp add: signed_in_offline_def world0_def no_token_def)
  have b: "fst (axios \<lparr>req_method = POST, req_url = apiUrl signed_in_offline @ ''/calendars'',
                      req_data = Some (JObj [(''name'', JStr ''A'')]),
                      req_authorization = bearer (token signed_in_offline)\<rparr> signed_in_offline)
           = Failure ''Request failed with status code 500''"
    by (simp add: signed_in_offline_def world0_def axios_def)
  have c: "console signed_in_offline = []"
    by (simp add: signed_in_offline_def world0_def)
  from createCalendar_api_failure [OF a b] c show ?thesis by simp
qed

text \<open>
  Claim C1 as stated fails: signed in, with the server answering the POST with an error,
  the promise of \<open>createCalendar\<close> does not reject.
\<close>

theorem createCalendar_api_failure_counterexample:
  "fst (createCalendar signed_in_offline [(''name'', JStr ''A'')]) = Resolved None
   \<and> \<not> is_rejected (fst (createCalendar signed_in_offline [(''name'', JStr ''A'')]))"
  by code_simp

text \<open>
  Claim C2, as the code has it. Without a token no request is sent. The local list receives
  one more entry, the object \<open>{ uuid: uuidv4(), ...calendar }\<close>, and is written to local
  storage; the action returns the calendar it was given, not that entry. In the entry every
  field is the input's, \<open>uuid\<close> included when the input has one; only an input without
  \<open>uuid\<close> gets the generated one.
\<close>

theorem createCalendar_local:
  assumes "no_token (token w)"
  shows "fst (createCalendar w cal) = Resolved (Some (JObj cal))
   \<and> requests (snd (createCalendar w cal)) = requests w
   \<and> localCalendars (store (snd (createCalendar w cal)))
       = localCalendars (store w) @ [spread [(''uuid'', JStr (fst (uuidv4 w)))] cal]
   \<and> localStorage (snd (createCalendar w cal)) ''calendars''
       = Some (stringify (JArr (map JObj (localCalendars (store (snd (createCalendar w cal)))))))
   \<and> (distinct (map fst cal) \<longrightarrow>
        (\<forall>k. lookup (spread [(''uuid'', JStr (fst (uuidv4 w)))] cal) k =
           (if k = ''uuid'' \<and> lookup cal ''uuid'' = None then Some (JStr (fst (uuidv4 w)))
            else lookup cal k)))"
  using assms
  by (simp add: createCalendar_def action_defs addLocalCalendar_def lookup_spread_uuid)

theorem createCalendar_local_witness:
  "fst (createCalendar world0 [(''name'', JStr ''A'')]) =
     Resolved (Some (JObj [(''name'', JStr ''A'')]))
   \<and> localCalendars (store (snd (createCalendar world0 [(''name'', JStr ''A'')])))
      = [[(''uuid'', JStr ''uuid-0''), (''name'', JStr ''A'')]]
   \<and> requests (snd (createCalendar world0 [(''name'', JStr ''A'')])) = requests world0"
  using createCalendar_local [OF no_token0, of "[(''name'', JStr ''A'')]"]
  by (simp add: uuid0 localCalendars0 spread_def)

text \<open>
  Claim C2 as stated fails: for the calendar \<open>{ name: "A" }\<close> the value returned is that
  calendar, which has no \<open>uuid\<close>; it is not the calendar augmented with the generated uuid.
\<close>

theorem createCalendar_local_counterexample:
  "fst (createCalendar world0 [(''name'', JStr ''A'')]) =
     Resolved (Some (JObj [(''name'', JStr ''A'')]))
   \<and> fst (createCalendar world0 [(''name'', JStr ''A'')]) \<noteq>
     Resolved (Some (JObj (spread [(''uuid'', JStr (fst (uuidv4 world0)))]
                                  [(''name'', JStr ''A'')])))"
  by code_simp

subsection \<open>saveSharedCalendar\<close>




subsection \<open>deleteCalendar\<close>

text \<open>
  Claim C4. Whatever the network answers, \<open>deleteCalendar\<close> resolves, the local list is the
  old one without the entries whose \<open>uuid\<close> is that of the calendar, so that no entry
  with this uuid (the calendar itself included) is left, and local storage holds that list.
\<close>

theorem deleteCalendar_removes_locally:
  "fst (deleteCalendar w cal) = Resolved None
   \<and> localCalendars (store (snd (deleteCalendar w cal)))
       = filter (\<lambda>c. \<not> strict_eq (lookup c ''uuid'') (lookup cal ''uuid''))
           (localCalendars (store w))
   \<and> (\<forall>c \<in> set (localCalendars (store (snd (deleteCalendar w cal)))).
         \<not> strict_eq (lookup c ''uuid'') (lookup cal ''uuid''))
   \<and> cal \<notin> set (localCalendars (store (snd (deleteCalendar w cal))))
   \<and> localStorage (snd (deleteCalendar w cal)) ''calendars''
       = Some (stringify (JArr (map JObj (localCalendars (store (snd (deleteCalendar w cal)))))))"
proof -
  let ?w' = "snd (deleteCalendar w cal)"
  have r: "fst (deleteCalendar w cal) = Resolved None"
    by (simp add: deleteCalendar_def Let_def axios_def split: list.splits response.splits)
  have l: "localCalendars (store ?w')
       = filter (\<lambda>c. \<not> strict_eq (lookup c ''uuid'') (lookup cal ''uuid''))
           (localCalendars (store w))"
    by (simp add: deleteCalendar_def Let_def action_defs removeLocalCalendar_def
        split: list.splits response.splits)
  have s: "localStorage ?w' ''calendars''
       = Some (stringify (JArr (map JObj (localCalendars (store ?w')))))"
    by (simp add: deleteCalendar_def Let_def action_defs removeLocalCalendar_def
        split: list.splits response.splits)
  from l have a: "\<forall>c \<in> set (localCalendars (store ?w')).
      \<not> strict_eq (lookup c ''uuid'') (lookup cal ''uuid'')"
    by simp
  have "strict_eq (lookup cal ''uuid'') (lookup cal ''uuid'')"
    by (simp add: strict_eq_def)
  with a have n: "cal \<notin> set (localCalendars (store ?w'))" by blast
  from r l s a n show ?thesis by blast
qed

theorem deleteCalendar_removes_locally_witness:
  "localCalendars (store (snd (deleteCalendar
       (signed_in_offline\<lparr>store := \<lparr>localCalendars = [[(''uuid'', JStr ''x'')], [(''uuid'', JStr ''y'')]],
                                     apiCalendars = [], calendar = Some JNull\<rparr>\<rparr>)
       [(''uuid'', JStr ''x'')])))
     = [[(''uuid'', JStr ''y'')]]"
  using deleteCalendar_removes_locally
    [of "signed_in_offline\<lparr>store := \<lparr>localCalendars = [[(''uuid'', JStr ''x'')], [(''uuid'', JStr ''y'')]],
                                      apiCalendars = [], calendar = Some JNull\<rparr>\<rparr>"
        "[(''uuid'', JStr ''x'')]"]
  by (simp add: strict_eq_def read_value_def lookup_def)

subsection \<open>togglePrivacy\<close>

text \<open>
  Claim C5. When no calendar of the API list has the uuid given, \<open>togglePrivacy\<close> rejects
  with \<open>Calendar not found\<close> and the world is as before: no request sent, the state
  untouched.
\<close>

theorem togglePrivacy_unknown:
  assumes "\<forall>c \<in> set (apiCalendars (store w)). \<not> strict_eq (lookup c ''uuid'') uuid"
  shows "togglePrivacy w uuid = (Rejected (Reason ''Calendar not found''), w)"
  using assms by (simp add: togglePrivacy_def find_none)

theorem togglePrivacy_unknown_witness:
  "togglePrivacy
     (world0\<lparr>store := \<lparr>localCalendars = [],
                        apiCalendars = [[(''uuid'', JStr ''x''), (''is_public'', JBool False)]],
                        calendar = Some JNull\<rparr>,
             token := Some ''t'', replies := [Data (JObj [])]\<rparr>)
     (Some (JStr ''y''))
   = (Rejected (Reason ''Calendar not found''),
      world0\<lparr>store := \<lparr>localCalendars = [],
                         apiCalendars = [[(''uuid'', JStr ''x''), (''is_public'', JBool False)]],
                         calendar = Some JNull\<rparr>,
              token := Some ''t'', replies := [Data (JObj [])]\<rparr>)"
  by (rule togglePrivacy_unknown) (simp add: world0_def strict_eq_def read_value_def lookup_def)

subsection \<open>updateCalendar\<close>

text \<open>
  Claim C6, as the code has it. A calendar whose \<open>fromApi\<close> is falsy is put into the local
  list with \<open>updateLocalCalendar\<close> and the list is stored; no request is sent. A calendar
  whose \<open>fromApi\<close> is truthy leaves state and storage alone and sends a PUT first. When the
  PUT is answered and the section ids can be read, one POST of the ids follows, and when
  that is answered too the action returns the data of the PUT answer, whatever the POST
  answered, and nothing is written to the console. When the PUT fails, or the sections
  cannot be mapped, no POST is sent; when the POST fails the PUT answer is not returned. In
  these cases the error is written to the console and the action resolves with undefined.
\<close>

theorem updateCalendar_requests:
  "(\<not> truthy (lookup cal ''fromApi'') \<longrightarrow>
        fst (updateCalendar w cal) = Resolved None
      \<and> requests (snd (updateCalendar w cal)) = requests w
      \<and> store (snd (updateCalendar w cal)) = updateLocalCalendar (store w) cal
      \<and> localStorage (snd (updateCalendar w cal)) ''calendars''
          = Some (stringify (JArr (map JObj (localCalendars (updateLocalCalendar (store w) cal)))))
      \<and> console (snd (updateCalendar w cal)) = console w)
   \<and> (truthy (lookup cal ''fromApi'') \<longrightarrow>
        store (snd (updateCalendar w cal)) = store w
      \<and> localStorage (snd (updateCalendar w cal)) = localStorage w
      \<and> (replies w = Data d # Data d2 # rs \<and> sectionsId cal = Some ids \<longrightarrow>
           fst (updateCalendar w cal) = Resolved (Some d)
         \<and> requests (snd (updateCalendar w cal)) = requests w @
             [\<lparr>req_method = PUT,
               req_url = apiUrl w @ ''/calendars/'' @ template (lookup cal ''uuid''),
               req_data = Some (JObj cal), req_authorization = bearer (token w)\<rparr>,
              \<lparr>req_method = POST,
               req_url = apiUrl w @ ''/calendars/'' @ template (lookup cal ''uuid'') @ ''/sections'',
               req_data = Some (JObj [(''sections'', JArr ids)]),
               req_authorization = bearer (token w)\<rparr>]
         \<and> console (snd (updateCalendar w cal)) = console w)
      \<and> (replies w = [] \<or> replies w = Failure e # rs \<longrightarrow>
           fst (updateCalendar w cal) = Resolved None
         \<and> requests (snd (updateCalendar w cal)) = requests w @
             [\<lparr>req_method = PUT,
               req_url = apiUrl w @ ''/calendars/'' @ template (lookup cal ''uuid''),
               req_data = Some (JObj cal), req_authorization = bearer (token w)\<rparr>]
         \<and> map req_method (requests (snd (updateCalendar w cal)))
             = map req_method (requests w) @ [PUT]
         \<and> console (snd (updateCalendar w cal))
             = console w @ [AxiosError (if replies w = [] then ''Network Error'' else e)])
      \<and> (replies w = Data d # rs \<and> sectionsId cal = None \<longrightarrow>
           fst (updateCalendar w cal) = Resolved None
         \<and> requests (snd (updateCalendar w cal)) = requests w @
             [\<lparr>req_method = PUT,
               req_url = apiUrl w @ ''/calendars/'' @ template (lookup cal ''uuid''),
               req_data = Some (JObj cal), req_authorization = bearer (token w)\<rparr>]
         \<and> map req_method (requests (snd (updateCalendar w cal)))
             = map req_method (requests w) @ [PUT]
         \<and> console (snd (updateCalendar w cal)) = console w @ [TypeError])
      \<and> ((replies w = [Data d] \<or> replies w = Data d # Failure e # rs)
           \<and> sectionsId cal = Some ids \<longrightarrow>
           fst (updateCalendar w cal) = Resolved None
         \<and> requests (snd (updateCalendar w cal)) = requests w @
             [\<lparr>req_method = PUT,
               req_url = apiUrl w @ ''/calendars/'' @ template (lookup cal ''uuid''),
               req_data = Some (JObj cal), req_authorization = bearer (token w)\<rparr>,
              \<lparr>req_method = POST,
               req_url = apiUrl w @ ''/calendars/'' @ template (lookup cal ''uuid'') @ ''/sections'',
               req_data = Some (JObj [(''sections'', JArr ids)]),
               req_authorization = bearer (token w)\<rparr>]
         \<and> map req_method (requests (snd (updateCalendar w cal)))
             = map req_method (requests w) @ [PUT, POST]
         \<and> console (snd (updateCalendar w cal))
             = console w @ [AxiosError (if replies w = [Data d] then ''Network Error'' else e)]))"
  by (auto simp: updateCalendar_def action_defs split: list.splits response.splits option.splits)

theorem updateCalendar_requests_witness:
  "fst (updateCalendar
          (world0\<lparr>token := Some ''t'', replies := [Data (JObj [(''saved'', JBool True)]), Data JNull]\<rparr>)
          [(''uuid'', JStr ''x''), (''fromApi'', JBool True),
           (''sections'', JArr [JObj [(''id'', JNum 7)], JObj [(''id'', JNum 9)]])])
     = Resolved (Some (JObj [(''saved'', JBool True)]))
   \<and> map req_method (requests (snd (updateCalendar
          (world0\<lparr>token := Some ''t'', replies := [Data (JObj [(''saved'', JBool True)]), Data JNull]\<rparr>)
          [(''uuid'', JStr ''x''), (''fromApi'', JBool True),
           (''sections'', JArr [JObj [(''id'', JNum 7)], JObj [(''id'', JNum 9)]])])))
     = [PUT, POST]
   \<and> requests (snd (updateCalendar world0 [(''uuid'', JStr ''x'')])) = []
   \<and> console (snd (updateCalendar signed_in_offline
          [(''uuid'', JStr ''x''), (''fromApi'', JBool True), (''sections'', JArr [])]))
     = [AxiosError ''Request failed with status code 500'']"
  using updateCalendar_requests
    [of "[(''uuid'', JStr ''x''), (''fromApi'', JBool True),
          (''sections'', JArr [JObj [(''id'', JNum 7)], JObj [(''id'', JNum 9)]])]"
        "world0\<lparr>token := Some ''t'', replies := [Data (JObj [(''saved'', JBool True)]), Data JNull]\<rparr>"
        "JObj [(''saved'', JBool True)]" JNull "[]" "[JNum 7, JNum 9]"]
    updateCalendar_requests [of "[(''uuid'', JStr ''x'')]" world0]
    updateCalendar_requests
    [of "[(''uuid'', JStr ''x''), (''fromApi'', JBool True), (''sections'', JArr [])]"
        signed_in_offline _ _ "[]" _ "''Request failed with status code 500''"]
  by (simp add: lookup_def sectionsId_def world0_def signed_in_offline_def)

text \<open>
  Claim C6 as stated fails: for a calendar from the API, when the server answers the PUT
  with an error the PUT is the only request sent, no POST follows, and the action resolves
  with undefined.
\<close>

theorem updateCalendar_requests_counterexample:
  "map req_method (requests (snd (updateCalendar signed_in_offline
       [(''uuid'', JStr ''x''), (''fromApi'', JBool True), (''sections'', JArr [])])))
     = [PUT]
   \<and> fst (updateCalendar signed_in_offline
       [(''uuid'', JStr ''x''), (''fromApi'', JBool True), (''sections'', JArr [])])
     = Resolved None"
  by code_simp

subsection \<open>addUuidToCalendars\<close>

lemma fst_map_add_uuid_Cons:
  "fst (map_add_uuid (c # cs) w) =
     (if truthy (lookup c ''uuid'') then c # fst (map_add_uuid cs w)
      else spread [(''uuid'', JStr (fst (uuidv4 w)))] c # fst (map_add_uuid cs (snd (uuidv4 w))))"
  by (simp split: prod.splits)

lemma settled_truthy: "truthy (lookup c ''uuid'') \<Longrightarrow> settled c"
  by (simp add: settled_def)

lemma map_add_uuid_settled: "\<forall>c \<in> set (fst (map_add_uuid cs w)). settled c"
proof (induction cs arbitrary: w)
  case Nil
  then show ?case by simp
next
  case (Cons c cs)
  show ?case
    unfolding fst_map_add_uuid_Cons using Cons.IH
    by (simp add: settled_spread settled_truthy)
qed

lemma map_add_uuid_fixed: "\<forall>c \<in> set cs. settled c \<Longrightarrow> fst (map_add_uuid cs w) = cs"
proof (induction cs arbitrary: w)
  case Nil
  then show ?case by simp
next
  case (Cons c cs)
  then show ?case
    unfolding fst_map_add_uuid_Cons by (simp add: settled_fixed)
qed

lemma map_add_uuid_length: "length (fst (map_add_uuid cs w)) = length cs"
proof (induction cs arbitrary: w)
  case Nil
  then show ?case by simp
next
  case (Cons c cs)
  then show ?case
    unfolding fst_map_add_uuid_Cons by simp
qed

lemma map_add_uuid_kept:
  "i < length cs \<Longrightarrow> truthy (lookup (cs ! i) ''uuid'') \<Longrightarrow> fst (map_add_uuid cs w) ! i = cs ! i"
proof (induction cs arbitrary: w i)
  case Nil
  then show ?case by simp
next
  case (Cons c cs)
  then show ?case
    unfolding fst_map_add_uuid_Cons by (cases i) simp_all
qed

lemma snd_map_add_uuid_Cons:
  "snd (map_add_uuid (c # cs) w) =
     (if truthy (lookup c ''uuid'') then snd (map_add_uuid cs w)
      else snd (map_add_uuid cs (snd (uuidv4 w))))"
  by (simp split: prod.splits)

lemma map_add_uuid_world:
  "store (snd (map_add_uuid cs w)) = store w \<and> localStorage (snd (map_add_uuid cs w)) = localStorage w"
proof (induction cs arbitrary: w)
  case Nil
  then show ?case by simp
next
  case (Cons c cs)
  show ?case
    unfolding snd_map_add_uuid_Cons using Cons.IH [of w] Cons.IH [of "snd (uuidv4 w)"]
    by (simp add: uuidv4_def)
qed

lemma addUuidToCalendars_list:
  "localCalendars (store (snd (addUuidToCalendars w))) = fst (map_add_uuid (localCalendars (store w)) w)"
  by (simp add: addUuidToCalendars_def setLocalCalendars_def setLocalCalendars_mutation_def
      action_defs split: prod.splits)

lemma addUuidToCalendars_storage:
  "localStorage (snd (addUuidToCalendars w)) =
     (localStorage w)(''calendars'' \<mapsto>
        stringify (JArr (map JObj (fst (map_add_uuid (localCalendars (store w)) w)))))"
  using map_add_uuid_world [of "localCalendars (store w)" w]
  by (auto simp add: addUuidToCalendars_def setLocalCalendars_def setLocalCalendars_mutation_def
      action_defs split: prod.splits)

text \<open>
  Claim C7. Running \<open>addUuidToCalendars\<close> a second time gives the local list, uuids
  included, and the local storage that the first run gave. The list keeps its length, and a
  calendar whose \<open>uuid\<close> is truthy is left as it is.
\<close>

theorem addUuidToCalendars_idempotent:
  "localCalendars (store (snd (addUuidToCalendars (snd (addUuidToCalendars w)))))
     = localCalendars (store (snd (addUuidToCalendars w)))
   \<and> localStorage (snd (addUuidToCalendars (snd (addUuidToCalendars w))))
     = localStorage (snd (addUuidToCalendars w))
   \<and> length (localCalendars (store (snd (addUuidToCalendars w)))) = length (localCalendars (store w))
   \<and> (\<forall>i < length (localCalendars (store w)).
        truthy (lookup (localCalendars (store w) ! i) ''uuid'') \<longrightarrow>
        localCalendars (store (snd (addUuidToCalendars w))) ! i = localCalendars (store w) ! i)"
proof -
  let ?w1 = "snd (addUuidToCalendars w)"
  let ?L1 = "localCalendars (store ?w1)"
  have s: "\<forall>c \<in> set ?L1. settled c"
    unfolding addUuidToCalendars_list by (rule map_add_uuid_settled)
  have twice: "localCalendars (store (snd (addUuidToCalendars ?w1))) = ?L1"
    using map_add_uuid_fixed [OF s, of ?w1] by (simp only: addUuidToCalendars_list [of ?w1])
  have sto: "localStorage (snd (addUuidToCalendars ?w1)) = localStorage ?w1"
    using map_add_uuid_fixed [OF s, of ?w1]
    by (simp add: addUuidToCalendars_storage [of ?w1]) (simp add: addUuidToCalendars_storage addUuidToCalendars_list)
  show ?thesis
    using twice sto by (simp add: addUuidToCalendars_list map_add_uuid_length map_add_uuid_kept)
qed

lemma legacy_once:
  "localCalendars (store (snd (addUuidToCalendars legacy_world))) =
     [[(''uuid'', JStr ''uuid-0''), (''name'', JStr ''A'')],
      [(''uuid'', JStr ''kept''), (''name'', JStr ''B'')],
      [(''uuid'', JStr []), (''name'', JStr ''C'')]]"
  by code_simp

theorem addUuidToCalendars_idempotent_witness:
  "localCalendars (store (snd (addUuidToCalendars (snd (addUuidToCalendars legacy_world)))))
    = [[(''uuid'', JStr ''uuid-0''), (''name'', JStr ''A'')],
       [(''uuid'', JStr ''kept''), (''name'', JStr ''B'')],
       [(''uuid'', JStr []), (''name'', JStr ''C'')]]"
  using addUuidToCalendars_idempotent [of legacy_world] by (simp add: legacy_once)

subsection \<open>saveLocalCalendars and getLocalCalendars\<close>

text \<open>
  Claim C8, as the code has it. Let the local list be written with \<open>saveLocalCalendars\<close>,
  its objects having one entry per key and its numbers being integers JavaScript holds
  exactly. In any world that has the local storage so written, \<open>getLocalCalendars\<close>
  resolves and leaves as the local list the list written with every property that held
  undefined dropped and every undefined element of an array turned into null, everything
  else being as it was. For a list in which nothing is undefined this is the list written.
\<close>

theorem persist_round_trip:
  assumes "\<forall>c \<in> set (localCalendars (store w)). wf_json (JObj c)"
    and "localStorage w' = localStorage (snd (saveLocalCalendars w))"
  shows "getLocalCalendars w' =
           Some (Resolved None,
                 w'\<lparr>store := (store w')\<lparr>localCalendars :=
                                            map clean_members (localCalendars (store w))\<rparr>\<rparr>)
         \<and> ((\<forall>c \<in> set (localCalendars (store w)). defined_json (JObj c)) \<longrightarrow>
              map clean_members (localCalendars (store w)) = localCalendars (store w))"
proof -
  let ?L = "localCalendars (store w)"
  have "wf_json (JArr (map JObj ?L))"
    using assms(1) by (simp add: wf_elems_objects)
  then have "parse (stringify (JArr (map JObj ?L))) = Read (clean (JArr (map JObj ?L)))"
    by (rule parse_stringify)
  then have p: "parse (stringify (JArr (map JObj ?L))) = Read (JArr (map JObj (map clean_members ?L)))"
    by (simp add: clean_elems_objects)
  have st: "localStorage w' ''calendars'' = Some (stringify (JArr (map JObj ?L)))"
    by (simp add: assms(2) saveLocalCalendars_def)
  have g: "getLocalCalendars w' =
           Some (Resolved None,
                 w'\<lparr>store := (store w')\<lparr>localCalendars := map clean_members ?L\<rparr>\<rparr>)"
    by (simp add: getLocalCalendars_def st p as_calendars_objects commit_def
        setLocalCalendars_mutation_def)
  have d: "map clean_members ?L = ?L" if "\<forall>c \<in> set ?L. defined_json (JObj c)"
    using that by (simp add: clean_members_defined map_idI)
  from g d show ?thesis by blast
qed

theorem persist_round_trip_witness:
  "stored_then_read stored_world = Some (localCalendars (store stored_world))"
proof -
  have a: "\<forall>c \<in> set (localCalendars (store stored_world)). wf_json (JObj c)"
    by (simp add: stored_world_def world0_def max_safe_def)
  have b: "\<forall>c \<in> set (localCalendars (store stored_world)). defined_json (JObj c)"
    by (simp add: stored_world_def world0_def)
  from persist_round_trip [OF a refl] b show ?thesis
    by (simp add: stored_then_read_def)
qed

text \<open>
  Claim C8 as stated fails: the list of the one calendar \<open>{ uuid: "a", end: undefined }\<close>
  is read back as the list of the calendar \<open>{ uuid: "a" }\<close>.
\<close>

theorem persist_round_trip_counterexample:
  "stored_then_read undefined_world = Some [[(''uuid'', JStr ''a'')]]
   \<and> stored_then_read undefined_world \<noteq> Some (localCalendars (store undefined_world))"
  by code_simp

end
